theory Spec2Isabelle
  imports Main "HOL-Library.Sublist"
begin

section \<open>Python strings\<close>

text \<open>
  Strings are lists of characters. \<open>str_contains sub s\<close> is Python's \<open>sub in s\<close>,
  \<open>str_replace old new s\<close> is \<open>s.replace(old, new)\<close> (leftmost, non-overlapping
  occurrences), \<open>rstrip\<close> and \<open>strip\<close> remove white space (the white-space characters with
  a code point below 256).
\<close>

fun str_contains :: "string \<Rightarrow> string \<Rightarrow> bool" where
  "str_contains sub [] = (sub = [])"
| "str_contains sub (c # cs) = (prefix sub (c # cs) \<or> str_contains sub cs)"

function str_replace :: "string \<Rightarrow> string \<Rightarrow> string \<Rightarrow> string" where
  "str_replace old new [] = (if old = [] then new else [])"
| "str_replace old new (c # cs) =
     (if old = [] then new @ c # str_replace old new cs
      else if prefix old (c # cs) then new @ str_replace old new (drop (length old) (c # cs))
      else c # str_replace old new cs)"
  by pat_completeness auto
termination
  by (relation "measure (\<lambda>(old, new, s). length s)") (auto simp: Suc_diff_le)

definition is_space :: "char \<Rightarrow> bool" where
  "is_space c = (c \<in> {CHR 0x09, CHR 0x0A, CHR 0x0B, CHR 0x0C, CHR 0x0D, CHR 0x1C, CHR 0x1D,
                       CHR 0x1E, CHR 0x1F, CHR 0x20, CHR 0x85, CHR 0xA0})"

definition rstrip :: "string \<Rightarrow> string" where
  "rstrip s = rev (dropWhile is_space (rev s))"

definition strip :: "string \<Rightarrow> string" where
  "strip s = dropWhile is_space (rstrip s)"

definition dict_get :: "'a option \<Rightarrow> 'a \<Rightarrow> 'a" where
  "dict_get entry dflt = (case entry of None \<Rightarrow> dflt | Some v \<Rightarrow> v)"

section \<open>Stream elements\<close>

text \<open>
  One element of the stream the Docker SDK yields is a dictionary. Each key the code reads
  is a field that is \<open>None\<close> when the key is absent: \<open>stream\<close>, \<open>status\<close>, \<open>id\<close> and
  \<open>progressDetail\<close>, itself a dictionary with the optional keys \<open>current\<close> and \<open>total\<close>.
\<close>

record progress_detail =
  pd_current :: "int option"
  pd_total :: "int option"

record line =
  line_stream :: "string option"
  line_status :: "string option"
  line_id :: "string option"
  line_progressDetail :: "progress_detail option"

type_synonym layer_id = "string option"

datatype error = KeyError | IndexError | NotImplementedError | EOFError | NotRenderableError

datatype log_entry =
    Success string
  | Debug_line line
  | Info string
  | Verbose string
  | Raw_debug string
  | Warning string
  | Error string
  | Critical string

definition and_then :: "error + 'a \<Rightarrow> ('a \<Rightarrow> error + 'b) \<Rightarrow> error + 'b" where
  "and_then r f = (case r of Inl e \<Rightarrow> Inl e | Inr v \<Rightarrow> f v)"

section \<open>The progress display\<close>

text \<open>
  The state of the \<open>rich\<close> progress display that \<open>ExegolProgress\<close> extends: the live tasks
  by task id and the next id to hand out. A task keeps its description, its total, its
  completed count, whether its clock was started, and the \<open>layer\<close> field a per-layer row is
  created with. Looking a task id up that is not live raises \<open>KeyError\<close>.
\<close>

record task =
  task_description :: string
  task_total :: int
  task_completed :: int
  task_started :: bool
  task_layer :: "layer_id option"

record progress_state =
  tasks :: "nat \<rightharpoonup> task"
  task_index :: nat

definition add_task :: "string \<Rightarrow> int \<Rightarrow> bool \<Rightarrow> layer_id option \<Rightarrow> progress_state
    \<Rightarrow> progress_state \<times> nat" where
  "add_task descr tot start lay p =
     (p\<lparr>tasks := (tasks p)(task_index p \<mapsto>
           \<lparr>task_description = descr, task_total = tot, task_completed = 0,
            task_started = start, task_layer = lay\<rparr>),
        task_index := Suc (task_index p)\<rparr>,
      task_index p)"

text \<open>
  Modelled from the spec: \<open>ExegolProgress.getTask\<close> (the class is not among the source
  files) gives the row of a task id, whose description can be re-labelled and whose
  started flag can be read.
\<close>

definition getTask :: "nat \<Rightarrow> progress_state \<Rightarrow> error + task" where
  "getTask task_id p = (case tasks p task_id of None \<Rightarrow> Inl KeyError | Some t \<Rightarrow> Inr t)"

definition update_total :: "nat \<Rightarrow> int \<Rightarrow> progress_state \<Rightarrow> error + progress_state" where
  "update_total task_id tot p =
     (case tasks p task_id of
        None \<Rightarrow> Inl KeyError
      | Some t \<Rightarrow> Inr (p\<lparr>tasks := (tasks p)(task_id \<mapsto> t\<lparr>task_total := tot\<rparr>)\<rparr>))"

definition update_completed :: "nat \<Rightarrow> int \<Rightarrow> progress_state \<Rightarrow> error + progress_state" where
  "update_completed task_id done p =
     (case tasks p task_id of
        None \<Rightarrow> Inl KeyError
      | Some t \<Rightarrow> Inr (p\<lparr>tasks := (tasks p)(task_id \<mapsto> t\<lparr>task_completed := done\<rparr>)\<rparr>))"

definition set_description :: "nat \<Rightarrow> string \<Rightarrow> progress_state \<Rightarrow> error + progress_state" where
  "set_description task_id descr p =
     and_then (getTask task_id p)
       (\<lambda>t. Inr (p\<lparr>tasks := (tasks p)(task_id \<mapsto> t\<lparr>task_description := descr\<rparr>)\<rparr>))"

definition start_task :: "nat \<Rightarrow> progress_state \<Rightarrow> error + progress_state" where
  "start_task task_id p =
     (case tasks p task_id of
        None \<Rightarrow> Inl KeyError
      | Some t \<Rightarrow> Inr (p\<lparr>tasks := (tasks p)(task_id \<mapsto> t\<lparr>task_started := True\<rparr>)\<rparr>))"

definition remove_task :: "nat \<Rightarrow> progress_state \<Rightarrow> error + progress_state" where
  "remove_task task_id p =
     (case tasks p task_id of
        None \<Rightarrow> Inl KeyError
      | Some t \<Rightarrow> Inr (p\<lparr>tasks := (tasks p)(task_id := None)\<rparr>))"

section \<open>downloadDockerLayer\<close>

text \<open>
  The local variables of \<open>downloadDockerLayer\<close>: the set of layers seen, the two sets of
  finished layers, the two pools of per-layer tasks, the progress display with its two
  aggregate rows, and what the logger received.
\<close>

record tracker =
  layers :: "layer_id set"
  layers_downloaded :: "layer_id set"
  layers_extracted :: "layer_id set"
  downloading :: "layer_id \<rightharpoonup> nat"
  extracting :: "layer_id \<rightharpoonup> nat"
  progress :: progress_state
  task_layers_download :: nat
  task_layers_extract :: nat
  logs :: "log_entry list"

definition str_of_layer :: "layer_id \<Rightarrow> string" where
  "str_of_layer layer = (case layer of None \<Rightarrow> ''None'' | Some s \<Rightarrow> s)"

definition detail_get :: "line \<Rightarrow> (progress_detail \<Rightarrow> int option) \<Rightarrow> int" where
  "detail_get ln key =
     (case line_progressDetail ln of
        None \<Rightarrow> 100
      | Some d \<Rightarrow> dict_get (key d) 100)"

definition detail_absent :: "line \<Rightarrow> bool" where
  "detail_absent ln =
     (case line_progressDetail ln of
        None \<Rightarrow> True
      | Some d \<Rightarrow> pd_current d = None \<and> pd_total d = None)"

definition task_pool_of :: "bool \<Rightarrow> tracker \<Rightarrow> (layer_id \<rightharpoonup> nat)" where
  "task_pool_of extract s = (if extract then extracting s else downloading s)"

definition set_task_pool :: "bool \<Rightarrow> (layer_id \<rightharpoonup> nat) \<Rightarrow> tracker \<Rightarrow> tracker" where
  "set_task_pool extract pool s = (if extract then s\<lparr>extracting := pool\<rparr> else s\<lparr>downloading := pool\<rparr>)"

definition layer_pool_add :: "bool \<Rightarrow> layer_id \<Rightarrow> tracker \<Rightarrow> tracker" where
  "layer_pool_add extract layer s =
     (if extract then s\<lparr>layers_extracted := insert layer (layers_extracted s)\<rparr>
      else s\<lparr>layers_downloaded := insert layer (layers_downloaded s)\<rparr>)"

text \<open>
  The body of the \<open>for\<close> loop on one stream element: the \<open>if\<close>/\<open>elif\<close> chain in the order
  of the source. The result is the new state and whether the loop breaks.
\<close>

definition downloadDockerLayer_step :: "bool \<Rightarrow> line \<Rightarrow> tracker \<Rightarrow> error + (tracker \<times> bool)" where
  "downloadDockerLayer_step quick_exit ln s =
     (let status = dict_get (line_status ln) '''';
          layer = line_id ln
      in
      if status = ''Pulling fs layer'' then
        (let s1 = s\<lparr>layers := insert layer (layers s)\<rparr> in
         and_then (update_total (task_layers_download s1) (int (card (layers s1))) (progress s1)) (\<lambda>p1.
         and_then (update_total (task_layers_extract s1) (int (card (layers s1))) p1) (\<lambda>p2.
         Inr (s1\<lparr>progress := p2\<rparr>, False))))
      else if str_contains ''Pulling from '' status then
        (let name = str_replace ''Pulling from '' '''' status;
             tag = dict_get (line_id ln) ''latest''
         in
         and_then (set_description (task_layers_download s)
                     (''[bold red]Downloading '' @ name @ '':'' @ tag) (progress s)) (\<lambda>p1.
         and_then (set_description (task_layers_extract s)
                     (''[bold gold1]Extracting '' @ name @ '':'' @ tag) p1) (\<lambda>p2.
         Inr (s\<lparr>progress := p2\<rparr>, False))))
      else if status = ''Download complete'' \<or> status = ''Pull complete'' then
        (let extract = (status = ''Pull complete'');
             s1 = layer_pool_add extract layer s
         in
         and_then
           (case task_pool_of extract s1 layer of
              None \<Rightarrow> Inr s1
            | Some layer_task \<Rightarrow>
                and_then (remove_task layer_task (progress s1)) (\<lambda>p.
                Inr (set_task_pool extract ((task_pool_of extract s1)(layer := None))
                       (s1\<lparr>progress := p\<rparr>)))) (\<lambda>s2.
         and_then (update_completed (task_layers_download s2)
                     (int (card (layers_downloaded s2))) (progress s2)) (\<lambda>p1.
         and_then (update_completed (task_layers_extract s2)
                     (int (card (layers_extracted s2))) p1) (\<lambda>p2.
         Inr (s2\<lparr>progress := p2\<rparr>, False)))))
      else if status = ''Downloading'' \<or> status = ''Extracting'' then
        (let extract = (status = ''Extracting'') in
         and_then
           (if extract then
              and_then (getTask (task_layers_extract s) (progress s)) (\<lambda>t.
              if \<not> task_started t then start_task (task_layers_extract s) (progress s)
              else Inr (progress s))
            else Inr (progress s)) (\<lambda>p0.
         (let s0 = s\<lparr>progress := p0\<rparr>;
              (s1, task_id) =
                (case task_pool_of extract s0 layer of
                   Some t \<Rightarrow> (s0, t)
                 | None \<Rightarrow>
                     (let (p1, t) =
                        add_task (''['' @ (if status = ''Downloading'' then ''blue'' else ''green'')
                                    @ '']'' @ status @ '' '' @ str_of_layer layer)
                          (detail_get ln pd_total) True (Some layer) (progress s0)
                      in (set_task_pool extract ((task_pool_of extract s0)(layer \<mapsto> t))
                            (s0\<lparr>progress := p1\<rparr>), t)))
          in
          and_then (update_completed task_id (detail_get ln pd_current) (progress s1)) (\<lambda>p2.
          Inr (s1\<lparr>progress := p2\<rparr>, False)))))
      else if str_contains ''Image is up to date'' status
            \<or> str_contains ''Status: Downloaded newer image for'' status then
        Inr (s\<lparr>logs := logs s @ [Success status]\<rparr>, quick_exit)
      else
        Inr (s\<lparr>logs := logs s @ [Debug_line ln]\<rparr>, False))"

text \<open>
  The \<open>for\<close> loop over the stream, an iterator: the result carries the elements the loop
  left in the iterator (none unless it broke out).
\<close>

fun downloadDockerLayer_loop :: "bool \<Rightarrow> line list \<Rightarrow> tracker \<Rightarrow> error + (tracker \<times> line list)" where
  "downloadDockerLayer_loop quick_exit [] s = Inr (s, [])"
| "downloadDockerLayer_loop quick_exit (ln # stream) s =
     (case downloadDockerLayer_step quick_exit ln s of
        Inl e \<Rightarrow> Inl e
      | Inr (s', stop) \<Rightarrow>
          if stop then Inr (s', stream) else downloadDockerLayer_loop quick_exit stream s')"

definition initial_tracker :: tracker where
  "initial_tracker =
     (let p0 = \<lparr>tasks = Map.empty, task_index = 0\<rparr>;
          (p1, download) = add_task ''[bold red]Downloading layers...'' 0 True None p0;
          (p2, extract) = add_task ''[bold gold1]Extracting layers...'' 0 False None p1
      in \<lparr>layers = {}, layers_downloaded = {}, layers_extracted = {},
          downloading = Map.empty, extracting = Map.empty, progress = p2,
          task_layers_download = download, task_layers_extract = extract, logs = []\<rparr>)"

definition downloadDockerLayer :: "line list \<Rightarrow> bool \<Rightarrow> error + (tracker \<times> line list)" where
  "downloadDockerLayer stream quick_exit = downloadDockerLayer_loop quick_exit stream initial_tracker"

subsection \<open>What the display shows\<close>

text \<open>
  The total and the completed count of an aggregate row, the started flag of the extract
  row as the loop reads it (\<open>progress.getTask(task_layers_extract).started\<close>), and the
  per-layer row of a layer in a pool.
\<close>

definition aggregate_total :: "nat \<Rightarrow> tracker \<Rightarrow> int option" where
  "aggregate_total task_id s = map_option task_total (tasks (progress s) task_id)"

definition aggregate_completed :: "nat \<Rightarrow> tracker \<Rightarrow> int option" where
  "aggregate_completed task_id s = map_option task_completed (tasks (progress s) task_id)"

definition extract_started :: "tracker \<Rightarrow> bool option" where
  "extract_started s =
     (case getTask (task_layers_extract s) (progress s) of
        Inl e \<Rightarrow> None
      | Inr t \<Rightarrow> Some (task_started t))"

definition layer_row :: "bool \<Rightarrow> layer_id \<Rightarrow> tracker \<Rightarrow> task option" where
  "layer_row extract layer s =
     (case task_pool_of extract s layer of
        None \<Rightarrow> None
      | Some t \<Rightarrow> tasks (progress s) t)"

text \<open>
  The elements of a stream that a call of \<open>downloadDockerLayer\<close> pulled from the iterator,
  and the started flag of the extract row when the call ends.
\<close>

definition consumed :: "line list \<Rightarrow> bool \<Rightarrow> line list" where
  "consumed stream quick_exit =
     (case downloadDockerLayer stream quick_exit of
        Inl e \<Rightarrow> []
      | Inr (s, rest) \<Rightarrow> take (length stream - length rest) stream)"

definition extract_started_after :: "line list \<Rightarrow> bool \<Rightarrow> bool option" where
  "extract_started_after stream quick_exit =
     (case downloadDockerLayer stream quick_exit of
        Inl e \<Rightarrow> None
      | Inr (s, rest) \<Rightarrow> extract_started s)"

subsection \<open>Valid event sequences\<close>

text \<open>
  The life of a layer is Unknown, Discovered, InProgress, Finished: in a valid sequence a
  layer is announced by a \<open>Pulling fs layer\<close> event before a \<open>Download complete\<close> or a
  \<open>Pull complete\<close> event names it. \<open>valid_from seen\<close> starts from the layers already seen.
\<close>

fun valid_from :: "layer_id set \<Rightarrow> line list \<Rightarrow> bool" where
  "valid_from seen [] = True"
| "valid_from seen (ln # stream) =
     (let status = dict_get (line_status ln) '''' in
      if status = ''Pulling fs layer'' then valid_from (insert (line_id ln) seen) stream
      else if status = ''Download complete'' \<or> status = ''Pull complete''
        then line_id ln \<in> seen \<and> valid_from seen stream
      else valid_from seen stream)"

definition valid_events :: "line list \<Rightarrow> bool" where
  "valid_events stream = valid_from {} stream"

subsection \<open>The loop body on a well-formed state\<close>

text \<open>
  The states the loop reaches: both aggregate rows are live, every task of a pool is a
  live per-layer row, and no task id is in a pool twice. On such a state no lookup of the
  body fails, and each branch has the result below.
\<close>

definition tracker_ok :: "tracker \<Rightarrow> bool" where
  "tracker_ok s =
     (finite (layers s) \<and> finite (layers_downloaded s) \<and> finite (layers_extracted s)
      \<and> task_layers_download s = 0 \<and> task_layers_extract s = 1
      \<and> tasks (progress s) 0 \<noteq> None \<and> tasks (progress s) 1 \<noteq> None
      \<and> 2 \<le> task_index (progress s)
      \<and> (\<forall>l t. downloading s l = Some t \<longrightarrow>
            2 \<le> t \<and> t < task_index (progress s) \<and> tasks (progress s) t \<noteq> None)
      \<and> (\<forall>l t. extracting s l = Some t \<longrightarrow>
            2 \<le> t \<and> t < task_index (progress s) \<and> tasks (progress s) t \<noteq> None)
      \<and> (\<forall>l l' t. downloading s l = Some t \<and> downloading s l' = Some t \<longrightarrow> l = l')
      \<and> (\<forall>l l' t. extracting s l = Some t \<and> extracting s l' = Some t \<longrightarrow> l = l')
      \<and> (\<forall>l l' t. downloading s l = Some t \<longrightarrow> extracting s l' \<noteq> Some t))"

definition aggregate_ok :: "tracker \<Rightarrow> bool" where
  "aggregate_ok s =
     (aggregate_total (task_layers_download s) s = Some (int (card (layers s)))
      \<and> aggregate_total (task_layers_extract s) s = Some (int (card (layers s)))
      \<and> aggregate_completed (task_layers_download s) s = Some (int (card (layers_downloaded s)))
      \<and> aggregate_completed (task_layers_extract s) s = Some (int (card (layers_extracted s))))"

definition discover_result :: "layer_id \<Rightarrow> tracker \<Rightarrow> tracker" where
  "discover_result layer s =
     (let seen = insert layer (layers s);
          m = tasks (progress s);
          m1 = m(task_layers_download s \<mapsto>
                 (the (m (task_layers_download s)))\<lparr>task_total := int (card seen)\<rparr>);
          m2 = m1(task_layers_extract s \<mapsto>
                 (the (m1 (task_layers_extract s)))\<lparr>task_total := int (card seen)\<rparr>)
      in s\<lparr>layers := seen, progress := (progress s)\<lparr>tasks := m2\<rparr>\<rparr>)"

definition named_result :: "line \<Rightarrow> tracker \<Rightarrow> tracker" where
  "named_result ln s =
     (let name = str_replace ''Pulling from '' '''' (dict_get (line_status ln) '''');
          tag = dict_get (line_id ln) ''latest'';
          m = tasks (progress s);
          m1 = m(task_layers_download s \<mapsto>
                 (the (m (task_layers_download s)))
                   \<lparr>task_description := ''[bold red]Downloading '' @ name @ '':'' @ tag\<rparr>);
          m2 = m1(task_layers_extract s \<mapsto>
                 (the (m1 (task_layers_extract s)))
                   \<lparr>task_description := ''[bold gold1]Extracting '' @ name @ '':'' @ tag\<rparr>)
      in s\<lparr>progress := (progress s)\<lparr>tasks := m2\<rparr>\<rparr>)"

definition finish_result :: "bool \<Rightarrow> layer_id \<Rightarrow> tracker \<Rightarrow> tracker" where
  "finish_result extract layer s =
     (let s1 = layer_pool_add extract layer s;
          m = (case task_pool_of extract s layer of
                 None \<Rightarrow> tasks (progress s)
               | Some layer_task \<Rightarrow> (tasks (progress s))(layer_task := None));
          m1 = m(task_layers_download s \<mapsto>
                 (the (m (task_layers_download s)))
                   \<lparr>task_completed := int (card (layers_downloaded s1))\<rparr>);
          m2 = m1(task_layers_extract s \<mapsto>
                 (the (m1 (task_layers_extract s)))
                   \<lparr>task_completed := int (card (layers_extracted s1))\<rparr>)
      in set_task_pool extract ((task_pool_of extract s)(layer := None))
           (s1\<lparr>progress := (progress s)\<lparr>tasks := m2\<rparr>\<rparr>))"

definition progress_result :: "bool \<Rightarrow> line \<Rightarrow> tracker \<Rightarrow> tracker" where
  "progress_result extract ln s =
     (let layer = line_id ln;
          status = dict_get (line_status ln) '''';
          p = progress s;
          m = (if extract \<and> \<not> task_started (the (tasks p (task_layers_extract s)))
               then (tasks p)(task_layers_extract s \<mapsto>
                      (the (tasks p (task_layers_extract s)))\<lparr>task_started := True\<rparr>)
               else tasks p)
      in case task_pool_of extract s layer of
           Some t \<Rightarrow>
             s\<lparr>progress := p\<lparr>tasks := m(t \<mapsto> (the (m t))
                                    \<lparr>task_completed := detail_get ln pd_current\<rparr>)\<rparr>\<rparr>
         | None \<Rightarrow>
             set_task_pool extract ((task_pool_of extract s)(layer \<mapsto> task_index p))
               (s\<lparr>progress :=
                    \<lparr>tasks = m(task_index p \<mapsto>
                       \<lparr>task_description =
                          ''['' @ (if status = ''Downloading'' then ''blue'' else ''green'')
                            @ '']'' @ status @ '' '' @ str_of_layer layer,
                        task_total = detail_get ln pd_total,
                        task_completed = detail_get ln pd_current,
                        task_started = True, task_layer = Some layer\<rparr>),
                     task_index = Suc (task_index p)\<rparr>\<rparr>))"

definition step_result :: "bool \<Rightarrow> line \<Rightarrow> tracker \<Rightarrow> tracker \<times> bool" where
  "step_result quick_exit ln s =
     (let status = dict_get (line_status ln) '''' in
      if status = ''Pulling fs layer'' then (discover_result (line_id ln) s, False)
      else if str_contains ''Pulling from '' status then (named_result ln s, False)
      else if status = ''Download complete'' \<or> status = ''Pull complete''
        then (finish_result (status = ''Pull complete'') (line_id ln) s, False)
      else if status = ''Downloading'' \<or> status = ''Extracting''
        then (progress_result (status = ''Extracting'') ln s, False)
      else if str_contains ''Image is up to date'' status
            \<or> str_contains ''Status: Downloaded newer image for'' status
        then (s\<lparr>logs := logs s @ [Success status]\<rparr>, quick_exit)
      else (s\<lparr>logs := logs s @ [Debug_line ln]\<rparr>, False))"

definition fresh_ok :: "tracker \<Rightarrow> bool" where
  "fresh_ok s = (\<forall>t. task_index (progress s) \<le> t \<longrightarrow> tasks (progress s) t = None)"

definition reach_ok :: "tracker \<Rightarrow> bool" where
  "reach_ok s = (tracker_ok s \<and> aggregate_ok s \<and> fresh_ok s)"

definition status_event :: "string \<Rightarrow> string \<Rightarrow> line" where
  "status_event status layer =
     \<lparr>line_stream = None, line_status = Some status, line_id = Some layer,
      line_progressDetail = None\<rparr>"

definition layer_pool_of :: "bool \<Rightarrow> tracker \<Rightarrow> layer_id set" where
  "layer_pool_of extract s = (if extract then layers_extracted s else layers_downloaded s)"

definition aggregate_row_of :: "bool \<Rightarrow> tracker \<Rightarrow> nat" where
  "aggregate_row_of extract s = (if extract then task_layers_extract s else task_layers_download s)"

section \<open>buildDockerImage\<close>

text \<open>
  The build stream is the same kind of iterator. \<open>build_log_line\<close> is what the loop logs
  for the text of one line; a line containing \<open>: FROM\<close> then passes the iterator to
  \<open>downloadDockerLayer\<close> with \<open>quick_exit=True\<close>, and the loop goes on with what that call
  left in it. The inner loop never puts elements back, which the recursion relies on.
\<close>

lemma loop_length:
  "downloadDockerLayer_loop qe stream s = Inr (s', rest) \<Longrightarrow> length rest \<le> length stream"
proof (induction "stream" arbitrary: s)
  case Nil
  then show ?case by simp
next
  case (Cons ln "stream")
  then show ?case by (fastforce split: sum.splits prod.splits if_splits)
qed

definition is_lower_alnum :: "char \<Rightarrow> bool" where
  "is_lower_alnum c =
     (let n = (of_char c :: nat) in (97 \<le> n \<and> n \<le> 122) \<or> (48 \<le> n \<and> n \<le> 57))"

definition match_successfully_built :: "string \<Rightarrow> bool" where
  "match_successfully_built text =
     (prefix ''Successfully built '' text
      \<and> (let r = drop (length ''Successfully built '') text
         in 12 \<le> length r \<and> list_all is_lower_alnum (take 12 r)))"

definition build_log_line :: "string \<Rightarrow> log_entry list" where
  "build_log_line stream_text =
     (if strip stream_text \<noteq> '''' then
        (if str_contains ''Step'' stream_text then [Info (rstrip stream_text)]
         else if str_contains ''--->'' stream_text
               \<or> str_contains ''Removing intermediate container '' stream_text
               \<or> match_successfully_built stream_text
               \<or> prefix ''Successfully tagged '' stream_text
           then [Verbose (rstrip stream_text)]
         else [Raw_debug stream_text])
      else [])"

function buildDockerImage :: "line list \<Rightarrow> error + log_entry list" where
  "buildDockerImage [] = Inr []"
| "buildDockerImage (ln # build_stream) =
     (let stream_text = dict_get (line_stream ln) '''';
          out = build_log_line stream_text
      in
      if str_contains '': FROM '' stream_text then
        (case downloadDockerLayer build_stream True of
           Inl e \<Rightarrow> Inl e
         | Inr (s, rest) \<Rightarrow>
             and_then (buildDockerImage rest) (\<lambda>lg.
             Inr (out @ [Info ''Downloading docker image''] @ logs s @ lg)))
      else and_then (buildDockerImage build_stream) (\<lambda>lg. Inr (out @ lg)))"
  by pat_completeness auto
termination
  by (relation "measure length") (auto simp: downloadDockerLayer_def dest: loop_length)

definition is_operation_complete :: "line \<Rightarrow> bool" where
  "is_operation_complete ln =
     (let status = dict_get (line_status ln) '''' in
      status \<noteq> ''Pulling fs layer'' \<and> \<not> str_contains ''Pulling from '' status
      \<and> status \<noteq> ''Download complete'' \<and> status \<noteq> ''Pull complete''
      \<and> status \<noteq> ''Downloading'' \<and> status \<noteq> ''Extracting''
      \<and> (str_contains ''Image is up to date'' status
          \<or> str_contains ''Status: Downloaded newer image for'' status))"

definition build_line :: "string \<Rightarrow> line" where
  "build_line text =
     \<lparr>line_stream = Some text, line_status = None, line_id = None, line_progressDetail = None\<rparr>"

section \<open>Tables\<close>

text \<open>
  Modelled from the spec: the verbosity of the logger (\<open>ExeLog\<close> is not among the source
  files) has three tiers, normal, verbose and debug. \<open>logger.isEnabledFor(ExeLog.VERBOSE)\<close>
  holds at verbose and at debug, \<open>logger.isEnabledFor(logging.DEBUG)\<close> at debug only.
\<close>

datatype verbosity = NormalLevel | VerboseLevel | DebugLevel

definition verbose_enabled :: "verbosity \<Rightarrow> bool" where
  "verbose_enabled v = (v \<noteq> NormalLevel)"

definition debug_enabled :: "verbosity \<Rightarrow> bool" where
  "debug_enabled v = (v = DebugLevel)"

text \<open>
  \<open>ExegolImage\<close> and \<open>ExegolContainer\<close> are not among the source files either. A record holds
  what each getter that the table builders call returns for one object; the three text
  getters of a container configuration take the debug flag.
\<close>

record image =
  image_getId :: string
  image_getName :: string
  image_getDownloadSize :: string
  image_getRealSize :: string
  image_getSize :: string
  image_getStatus :: string
  image_getType :: string

record container =
  container_getId :: string
  container_name :: string
  container_getTextStatus :: string
  container_image_getName :: string
  container_getTextFeatures :: string
  container_getTextMounts :: "bool \<Rightarrow> string"
  container_getTextDevices :: "bool \<Rightarrow> string"
  container_getTextEnvs :: "bool \<Rightarrow> string"

text \<open>
  The list \<open>printTable\<close> receives is homogeneous: images, containers, strings, or objects
  of a type it has no builder for (its name and how many there are).
\<close>

datatype table_data =
    Images "image list"
  | Containers "container list"
  | Strings "string list"
  | Unsupported string nat

fun data_len :: "table_data \<Rightarrow> nat" where
  "data_len (Images xs) = length xs"
| "data_len (Containers xs) = length xs"
| "data_len (Strings xs) = length xs"
| "data_len (Unsupported ty n) = n"

text \<open>
  A \<open>rich\<close> table: its title, the headers of its columns and its rows of cells (the styles
  the constructor sets are left out). A header or a title is \<open>None\<close> when Python's \<open>None\<close>
  was given.
\<close>

record table =
  table_title :: "string option"
  table_columns :: "string option list"
  table_rows :: "string list list"

definition add_column :: "string option \<Rightarrow> table \<Rightarrow> table" where
  "add_column header t = t\<lparr>table_columns := table_columns t @ [header]\<rparr>"

definition add_row :: "string list \<Rightarrow> table \<Rightarrow> table" where
  "add_row cells t = t\<lparr>table_rows := table_rows t @ [cells]\<rparr>"

text \<open>What reaches the terminal: a log record, a printed table, a prompt with its default and choices.\<close>

datatype console_output =
    Logged log_entry
  | Printed table
  | Asked string string "string list"

definition buildImageTable :: "verbosity \<Rightarrow> table \<Rightarrow> image list \<Rightarrow> table" where
  "buildImageTable v table0 data =
     (let t0 = table0\<lparr>table_title := Some ''Available images''\<rparr>;
          verbose_mode = verbose_enabled v;
          t1 = (if verbose_mode then add_column (Some ''Id'') t0 else t0);
          t2 = add_column (Some ''Image tag'') t1;
          t3 = (if verbose_mode
                then add_column (Some ''Disk size'') (add_column (Some ''Download size'') t2)
                else add_column (Some ''Size'') t2);
          t4 = add_column (Some ''Status'') t3;
          t5 = add_column (Some ''Type'') t4
      in foldl (\<lambda>t image.
           if verbose_mode
           then add_row [image_getId image, image_getName image, image_getDownloadSize image,
                         image_getRealSize image, image_getStatus image, image_getType image] t
           else add_row [image_getName image, image_getSize image, image_getStatus image,
                         image_getType image] t) t5 data)"

definition buildContainerTable :: "verbosity \<Rightarrow> table \<Rightarrow> container list \<Rightarrow> table" where
  "buildContainerTable v table0 data =
     (let t0 = table0\<lparr>table_title := Some ''[gold3][g]Available containers[/g][/gold3]''\<rparr>;
          verbose_mode = verbose_enabled v;
          debug_mode = debug_enabled v;
          t1 = (if verbose_mode then add_column (Some ''Id'') t0 else t0);
          t2 = add_column (Some ''Configurations'')
                 (add_column (Some ''Image tag'')
                   (add_column (Some ''State'') (add_column (Some ''Container tag'') t1)));
          t3 = (if verbose_mode
                then add_column (Some ''Envs'')
                       (add_column (Some ''Devices'') (add_column (Some ''Mounts'') t2))
                else t2)
      in foldl (\<lambda>t c.
           if verbose_mode
           then add_row [container_getId c, container_name c, container_getTextStatus c,
                         container_image_getName c, container_getTextFeatures c,
                         container_getTextMounts c debug_mode, container_getTextDevices c debug_mode,
                         container_getTextEnvs c debug_mode] t
           else add_row [container_name c, container_getTextStatus c, container_image_getName c,
                         container_getTextFeatures c] t) t3 data)"

text \<open>
  \<open>__buildStringTable(table, data, title="Key")\<close>: the argument is \<open>None\<close> when the caller
  leaves it out, and then the default applies; otherwise it is the value passed, which may
  be Python's \<open>None\<close>.
\<close>

definition buildStringTable :: "table \<Rightarrow> string list \<Rightarrow> string option option \<Rightarrow> table" where
  "buildStringTable table0 data title_arg =
     (let title = (case title_arg of None \<Rightarrow> Some ''Key'' | Some passed \<Rightarrow> passed);
          t0 = table0\<lparr>table_title := None\<rparr>;
          t1 = add_column title t0
      in foldl (\<lambda>t s. add_row [s] t) t1 data)"

text \<open>
  \<open>console.print(table)\<close>: \<open>rich\<close> cannot render a column header that is \<open>None\<close>; it
  raises \<open>NotRenderableError\<close> and nothing of the table is written.
\<close>

definition console_print :: "table \<Rightarrow> (error + unit) \<times> console_output list" where
  "console_print t =
     (if None \<in> set (table_columns t) then (Inl NotRenderableError, [])
      else (Inr (), [Printed t]))"

definition printTable :: "verbosity \<Rightarrow> table_data \<Rightarrow> string option \<Rightarrow> (error + unit) \<times> console_output list" where
  "printTable v data title =
     (let table0 = \<lparr>table_title = title, table_columns = [], table_rows = []\<rparr> in
      if data_len data = 0 then (Inr (), [Logged (Info ''No data supplied'')])
      else
        (case data of
           Images xs \<Rightarrow> console_print (buildImageTable v table0 xs)
         | Containers xs \<Rightarrow> console_print (buildContainerTable v table0 xs)
         | Strings xs \<Rightarrow> console_print (buildStringTable table0 xs (Some title))
         | Unsupported ty n \<Rightarrow>
             (Inl NotImplementedError,
              [Logged (Error (''Print table of '' @ ty @ '' is not implemented''))])))"

section \<open>Interactive selection\<close>

text \<open>
  \<open>Prompt.ask\<close> of \<open>rich\<close> with a default and a closed set of choices, on the lines the user
  types: an empty line gives the default, a line that is a choice once stripped gives that
  choice, any other line makes it ask again; when the input ends it raises \<open>EOFError\<close>.
\<close>

fun Prompt_ask :: "string \<Rightarrow> string list \<Rightarrow> string list \<Rightarrow> error + string" where
  "Prompt_ask dflt choices [] = Inl EOFError"
| "Prompt_ask dflt choices (typed # later) =
     (if typed = '''' then Inr dflt
      else if strip typed \<in> set choices then Inr (strip typed)
      else Prompt_ask dflt choices later)"

text \<open>The \<open>object_type\<close> argument of \<open>selectFromTable\<close>: a class, or \<open>None\<close>.\<close>

datatype class_tag = ExegolImage_class | ExegolContainer_class | Other_class

text \<open>
  \<open>SelectableInterface\<close> is not among the source files, so its two methods are parameters:
  \<open>getKey obj\<close> is \<open>obj.getKey()\<close> and \<open>eq choice obj\<close> is the comparison \<open>choice == obj\<close>
  of the loop. \<open>as_table_data\<close> is how \<open>printTable\<close> sees a list of these objects
  (\<open>Images\<close> for \<open>ExegolImage\<close>, \<open>Containers\<close> for \<open>ExegolContainer\<close>), and \<open>typed\<close> are the
  lines the user types at the prompt. The result is the object returned, or \<open>None\<close> when
  the loop finds none.
\<close>

definition selectFromTable :: "('a \<Rightarrow> string) \<Rightarrow> (string \<Rightarrow> 'a \<Rightarrow> bool) \<Rightarrow> ('a list \<Rightarrow> table_data)
    \<Rightarrow> verbosity \<Rightarrow> 'a list \<Rightarrow> class_tag option \<Rightarrow> string option \<Rightarrow> string list
    \<Rightarrow> (error + 'a option) \<times> console_output list" where
  "selectFromTable getKey eq as_table_data v data object_type dflt_arg typed =
     (if length data = 0 then
        (Inl IndexError,
         [Logged (Warning
            (if object_type = Some ExegolImage_class then ''No images were found''
             else if object_type = Some ExegolContainer_class then ''No container were found''
             else ''No container were found''))])
      else
        (case printTable v (as_table_data data) None of
           (Inl e, out) \<Rightarrow> (Inl e, out)
         | (Inr u, out) \<Rightarrow>
             (let choices = map getKey data;
                  dflt = (case dflt_arg of None \<Rightarrow> choices ! 0 | Some d \<Rightarrow> d);
                  out1 = out @ [Asked ''[blue][?][/blue] Select an object by his name'' dflt choices]
              in case Prompt_ask dflt choices typed of
                   Inl e \<Rightarrow> (Inl e, out1)
                 | Inr choice \<Rightarrow>
                     (case find (eq choice) data of
                        Some obj \<Rightarrow> (Inr (Some obj), out1)
                      | None \<Rightarrow>
                          (Inr None,
                           out1 @ [Logged (Critical
                             ''Unknown error, cannot fetch selected object.'')])))))"

text \<open>
  The \<open>data\<close> of \<open>selectFromList\<close> is a list of strings or a dictionary, here the list of
  its items in order (its keys are distinct); the result is the string chosen or the value
  of the key chosen.
\<close>

datatype 'v options = OptionList "string list" | OptionDict "(string \<times> 'v) list"

datatype 'v selection = SelectedString string | SelectedValue 'v

definition selectFromList :: "verbosity \<Rightarrow> 'v options \<Rightarrow> string \<Rightarrow> string \<Rightarrow> string option
    \<Rightarrow> string list \<Rightarrow> (error + 'v selection) \<times> console_output list" where
  "selectFromList v data subject title dflt_arg typed =
     (if (case data of OptionList xs \<Rightarrow> length xs | OptionDict kvs \<Rightarrow> length kvs) = 0 then
        (Inl IndexError, [Logged (Warning ''No options were found'')])
      else
        (let submit_data = (case data of OptionDict kvs \<Rightarrow> map fst kvs | OptionList xs \<Rightarrow> xs) in
         case printTable v (Strings submit_data) (Some title) of
           (Inl e, out) \<Rightarrow> (Inl e, out)
         | (Inr u, out) \<Rightarrow>
             (let dflt = (case dflt_arg of None \<Rightarrow> submit_data ! 0 | Some d \<Rightarrow> d);
                  out1 = out @ [Asked (''[blue][?][/blue] Select '' @ subject) dflt submit_data]
              in case Prompt_ask dflt submit_data typed of
                   Inl e \<Rightarrow> (Inl e, out1)
                 | Inr choice \<Rightarrow>
                     (case data of
                        OptionDict kvs \<Rightarrow>
                          (case map_of kvs choice of
                             None \<Rightarrow> (Inl KeyError, out1)
                           | Some val \<Rightarrow> (Inr (SelectedValue val), out1))
                      | OptionList xs \<Rightarrow> (Inr (SelectedString choice), out1)))))"



section \<open>Properties of the loop body\<close>

lemmas ops = and_then_def update_total_def update_completed_def set_description_def getTask_def
  start_task_def remove_task_def add_task_def task_pool_of_def set_task_pool_def layer_pool_add_def

lemma initial_ok: "tracker_ok initial_tracker"
  by (simp add: tracker_ok_def initial_tracker_def add_task_def)

lemma ok_agg:
  assumes "tracker_ok s"
  obtains a b where "task_layers_download s = 0" "task_layers_extract s = 1"
    "tasks (progress s) 0 = Some a" "tasks (progress s) (Suc 0) = Some b"
  using assms unfolding tracker_ok_def by auto

lemma ok_pool:
  assumes "tracker_ok s" "task_pool_of extract s l = Some t"
  obtains x where "t \<noteq> 0" "t \<noteq> Suc 0" "tasks (progress s) t = Some x"
proof -
  from assms have "2 \<le> t \<and> tasks (progress s) t \<noteq> None"
    unfolding tracker_ok_def task_pool_of_def by (cases "extract") auto
  then show ?thesis using that by auto
qed

lemma step_discover_eq:
  assumes ok: "tracker_ok s" and st: "dict_get (line_status ln) '''' = ''Pulling fs layer''"
  shows "downloadDockerLayer_step qe ln s = Inr (discover_result (line_id ln) s, False)"
proof -
  from ok obtain a b where "task_layers_download s = 0" "task_layers_extract s = 1"
    "tasks (progress s) 0 = Some a" "tasks (progress s) (Suc 0) = Some b" by (rule ok_agg)
  then show ?thesis using st
    by (simp add: downloadDockerLayer_step_def Let_def discover_result_def ops)
qed

lemma step_named_eq:
  assumes ok: "tracker_ok s" and st: "dict_get (line_status ln) '''' \<noteq> ''Pulling fs layer''"
    "str_contains ''Pulling from '' (dict_get (line_status ln) '''')"
  shows "downloadDockerLayer_step qe ln s = Inr (named_result ln s, False)"
proof -
  from ok obtain a b where "task_layers_download s = 0" "task_layers_extract s = 1"
    "tasks (progress s) 0 = Some a" "tasks (progress s) (Suc 0) = Some b" by (rule ok_agg)
  then show ?thesis using st
    by (simp add: downloadDockerLayer_step_def Let_def named_result_def ops)
qed

lemma step_finish_eq:
  assumes ok: "tracker_ok s"
    and st: "dict_get (line_status ln) '''' = ''Download complete'' \<or> dict_get (line_status ln) '''' = ''Pull complete''"
  shows "downloadDockerLayer_step qe ln s =
     Inr (finish_result (dict_get (line_status ln) '''' = ''Pull complete'') (line_id ln) s, False)"
proof -
  from ok obtain a b where agg: "task_layers_download s = 0" "task_layers_extract s = 1"
    "tasks (progress s) 0 = Some a" "tasks (progress s) (Suc 0) = Some b" by (rule ok_agg)
  show ?thesis
  proof (cases "task_pool_of (dict_get (line_status ln) '''' = ''Pull complete'') s (line_id ln)")
    case None
    then show ?thesis using st agg
      by (auto simp: downloadDockerLayer_step_def Let_def finish_result_def ops fun_upd_idem)
  next
    case (Some lt)
    from ok_pool[OF ok Some] obtain x where "lt \<noteq> 0" "lt \<noteq> Suc 0" "tasks (progress s) lt = Some x" .
    then show ?thesis using st agg Some
      by (auto simp: downloadDockerLayer_step_def Let_def finish_result_def ops)
  qed
qed

lemma step_progress_eq:
  assumes ok: "tracker_ok s"
    and st: "dict_get (line_status ln) [] = ''Downloading'' \<or> dict_get (line_status ln) [] = ''Extracting''"
  shows "downloadDockerLayer_step qe ln s =
     Inr (progress_result (dict_get (line_status ln) [] = ''Extracting'') ln s, False)"
proof -
  from ok obtain a b where agg: "task_layers_download s = 0" "task_layers_extract s = 1"
    "tasks (progress s) 0 = Some a" "tasks (progress s) (Suc 0) = Some b" by (rule ok_agg)
  from st show ?thesis
  proof
    assume d: "dict_get (line_status ln) [] = ''Downloading''"
    show ?thesis
    proof (cases "downloading s (line_id ln)")
      case None
      then show ?thesis using d agg
        by (simp add: downloadDockerLayer_step_def Let_def progress_result_def ops)
    next
      case (Some lt)
      then have "task_pool_of False s (line_id ln) = Some lt" by (simp add: task_pool_of_def)
      from ok_pool[OF ok this] obtain x where "lt \<noteq> 0" "lt \<noteq> Suc 0" "tasks (progress s) lt = Some x" .
      then show ?thesis using d agg Some
        by (simp add: downloadDockerLayer_step_def Let_def progress_result_def ops)
    qed
  next
    assume e: "dict_get (line_status ln) [] = ''Extracting''"
    show ?thesis
    proof (cases "extracting s (line_id ln)")
      case None
      then show ?thesis using e agg
        by (cases "task_started b") (simp_all add: downloadDockerLayer_step_def Let_def progress_result_def ops)
    next
      case (Some lt)
      then have "task_pool_of True s (line_id ln) = Some lt" by (simp add: task_pool_of_def)
      from ok_pool[OF ok this] obtain x where "lt \<noteq> 0" "lt \<noteq> Suc 0" "tasks (progress s) lt = Some x" .
      then show ?thesis using e agg Some
        by (cases "task_started b") (simp_all add: downloadDockerLayer_step_def Let_def progress_result_def ops)
    qed
  qed
qed

lemma step_eq:
  assumes ok: "tracker_ok s"
  shows "downloadDockerLayer_step qe ln s = Inr (step_result qe ln s)"
proof -
  let ?st = "dict_get (line_status ln) []"
  consider (discover) "?st = ''Pulling fs layer''"
    | (named) "?st \<noteq> ''Pulling fs layer''" "str_contains ''Pulling from '' ?st"
    | (finish) "?st = ''Download complete'' \<or> ?st = ''Pull complete''"
    | (progress) "?st = ''Downloading'' \<or> ?st = ''Extracting''"
    | (other) "?st \<noteq> ''Pulling fs layer''" "\<not> str_contains ''Pulling from '' ?st"
        "?st \<noteq> ''Download complete''" "?st \<noteq> ''Pull complete''"
        "?st \<noteq> ''Downloading''" "?st \<noteq> ''Extracting''"
    by blast
  then show ?thesis
  proof cases
    case discover
    then show ?thesis using step_discover_eq[OF ok discover] by (simp add: step_result_def)
  next
    case named
    then show ?thesis using step_named_eq[OF ok named] by (simp add: step_result_def)
  next
    case finish
    then show ?thesis using step_finish_eq[OF ok finish] by (auto simp: step_result_def)
  next
    case progress
    then show ?thesis using step_progress_eq[OF ok progress] by (auto simp: step_result_def)
  next
    case other
    then show ?thesis by (simp add: step_result_def downloadDockerLayer_step_def Let_def)
  qed
qed

lemma discover_ok: "tracker_ok s \<Longrightarrow> tracker_ok (discover_result layer s)"
  unfolding tracker_ok_def discover_result_def Let_def
  by (auto simp: dom_def)

lemma named_ok: "tracker_ok s \<Longrightarrow> tracker_ok (named_result ln s)"
  unfolding tracker_ok_def named_result_def Let_def
  by (auto simp: dom_def)

lemma finish_ok: "tracker_ok s \<Longrightarrow> tracker_ok (finish_result ex layer s)"
  unfolding tracker_ok_def finish_result_def Let_def
  by (auto simp: ops dom_def split: option.splits if_splits)

lemma progress_ok_dl_some:
  assumes "tracker_ok s" "downloading s (line_id ln) = Some t"
  shows "tracker_ok (progress_result False ln s)"
  using assms unfolding tracker_ok_def progress_result_def Let_def
  by (auto simp: ops)

lemma progress_ok_dl_none:
  assumes "tracker_ok s" "downloading s (line_id ln) = None"
  shows "tracker_ok (progress_result False ln s)"
  using assms unfolding tracker_ok_def progress_result_def Let_def
  apply (simp add: ops)
  apply (intro conjI allI impI)
  apply (auto simp: less_Suc_eq)
  done

lemma progress_ok_ex_some:
  assumes "tracker_ok s" "extracting s (line_id ln) = Some t"
  shows "tracker_ok (progress_result True ln s)"
  using assms unfolding tracker_ok_def progress_result_def Let_def
  by (auto simp: ops)

lemma progress_ok_ex_none:
  assumes "tracker_ok s" "extracting s (line_id ln) = None"
  shows "tracker_ok (progress_result True ln s)"
  using assms unfolding tracker_ok_def progress_result_def Let_def
  apply (simp add: ops)
  apply (intro conjI allI impI)
  apply (auto simp: less_Suc_eq)
  done

lemma progress_ok: "tracker_ok s \<Longrightarrow> tracker_ok (progress_result ex ln s)"
  apply (cases ex; cases "extracting s (line_id ln)"; cases "downloading s (line_id ln)")
  apply (simp_all add: progress_ok_dl_some progress_ok_dl_none progress_ok_ex_some progress_ok_ex_none)
  done

lemma step_result_ok: "tracker_ok s \<Longrightarrow> tracker_ok (fst (step_result qe ln s))"
  unfolding step_result_def Let_def
  by (simp add: discover_ok named_ok finish_ok progress_ok) (simp add: tracker_ok_def)

lemma loop_ok:
  "tracker_ok s \<Longrightarrow> \<exists>s' rest. downloadDockerLayer_loop qe stream s = Inr (s', rest) \<and> tracker_ok s'"
proof (induction "stream" arbitrary: s)
  case Nil
  then show ?case by simp
next
  case (Cons ln "stream")
  have ok': "tracker_ok (fst (step_result qe ln s))" using Cons.prems by (rule step_result_ok)
  show ?case
  proof (cases "snd (step_result qe ln s)")
    case True
    then show ?thesis using ok' step_eq[OF Cons.prems, of qe ln]
      by (cases "step_result qe ln s") simp
  next
    case False
    then show ?thesis using Cons.IH[OF ok'] step_eq[OF Cons.prems, of qe ln]
      by (cases "step_result qe ln s") simp
  qed
qed

lemma download_ok:
  "\<exists>s rest. downloadDockerLayer stream qe = Inr (s, rest) \<and> tracker_ok s"
  unfolding downloadDockerLayer_def using loop_ok[OF initial_ok] by blast

lemma detail_get_absent:
  "detail_absent ln \<Longrightarrow> detail_get ln pd_current = 100 \<and> detail_get ln pd_total = 100"
  by (auto simp: detail_absent_def detail_get_def dict_get_def split: option.splits)

lemma progress_row:
  assumes ok: "tracker_ok s"
  shows "\<exists>row. layer_row ex (line_id ln) (progress_result ex ln s) = Some row
     \<and> task_completed row = detail_get ln pd_current
     \<and> (task_pool_of ex s (line_id ln) = None \<longrightarrow>
           task_total row = detail_get ln pd_total \<and> task_layer row = Some (line_id ln))"
proof (cases "task_pool_of ex s (line_id ln)")
  case None
  then show ?thesis
    by (cases ex) (simp_all add: layer_row_def progress_result_def Let_def task_pool_of_def set_task_pool_def)
next
  case (Some t)
  from ok_pool[OF ok Some] obtain x where "t \<noteq> 0" "t \<noteq> Suc 0" "tasks (progress s) t = Some x" .
  moreover from ok have "task_layers_extract s = 1" by (simp add: tracker_ok_def)
  ultimately show ?thesis using Some
    by (cases ex) (simp_all add: layer_row_def progress_result_def Let_def task_pool_of_def)
qed


lemma absent_progress_step:
  assumes ok: "tracker_ok s"
    and st: "dict_get (line_status ln) [] = ''Downloading'' \<or> dict_get (line_status ln) [] = ''Extracting''"
    and ab: "detail_absent ln"
  shows "\<exists>s' row. downloadDockerLayer_step qe ln s = Inr (s', False)
          \<and> layer_row (dict_get (line_status ln) [] = ''Extracting'') (line_id ln) s' = Some row
          \<and> task_completed row = 100
          \<and> (task_pool_of (dict_get (line_status ln) [] = ''Extracting'') s (line_id ln) = None
                \<longrightarrow> task_total row = 100)"
proof -
  define ex where "ex = (dict_get (line_status ln) [] = ''Extracting'')"
  have eq: "downloadDockerLayer_step qe ln s = Inr (progress_result ex ln s, False)"
    unfolding ex_def using ok st by (rule step_progress_eq)
  from progress_row[OF ok, of ex ln]
  obtain row where row: "layer_row ex (line_id ln) (progress_result ex ln s) = Some row"
      "task_completed row = detail_get ln pd_current"
      "task_pool_of ex s (line_id ln) = None \<longrightarrow>
           task_total row = detail_get ln pd_total \<and> task_layer row = Some (line_id ln)"
    by (elim exE conjE)
  have "downloadDockerLayer_step qe ln s = Inr (progress_result ex ln s, False)
          \<and> layer_row ex (line_id ln) (progress_result ex ln s) = Some row
          \<and> task_completed row = 100
          \<and> (task_pool_of ex s (line_id ln) = None \<longrightarrow> task_total row = 100)"
    using eq row detail_get_absent[OF ab] by simp
  then show ?thesis unfolding ex_def by (intro exI)
qed


text \<open>
  C4. An event with missing fields never makes the loop fail: every stream is consumed
  without an error, and a Downloading or Extracting event without numeric progress detail
  is tracked with current = 100, and with total = 100 when it creates the row.
\<close>

theorem malformed_events_tolerated:
  "\<exists>s rest. downloadDockerLayer stream quick_exit = Inr (s, rest) \<and>
     (\<forall>ln qe. (dict_get (line_status ln) [] = ''Downloading'' \<or> dict_get (line_status ln) [] = ''Extracting'')
         \<and> detail_absent ln \<longrightarrow>
       (\<exists>s' row. downloadDockerLayer_step qe ln s = Inr (s', False)
          \<and> layer_row (dict_get (line_status ln) [] = ''Extracting'') (line_id ln) s' = Some row
          \<and> task_completed row = 100
          \<and> (task_pool_of (dict_get (line_status ln) [] = ''Extracting'') s (line_id ln) = None
                \<longrightarrow> task_total row = 100)))"
proof -
  obtain s rest where run: "downloadDockerLayer stream quick_exit = Inr (s, rest)"
    and ok: "tracker_ok s" using download_ok[of "stream" quick_exit] by (elim exE conjE)
  show ?thesis
  proof (rule exI[of _ s], rule exI[of _ rest], rule conjI[OF run], intro allI impI)
    fix ln qe
    assume "(dict_get (line_status ln) [] = ''Downloading'' \<or> dict_get (line_status ln) [] = ''Extracting'')
         \<and> detail_absent ln"
    then show "\<exists>s' row. downloadDockerLayer_step qe ln s = Inr (s', False)
          \<and> layer_row (dict_get (line_status ln) [] = ''Extracting'') (line_id ln) s' = Some row
          \<and> task_completed row = 100
          \<and> (task_pool_of (dict_get (line_status ln) [] = ''Extracting'') s (line_id ln) = None
                \<longrightarrow> task_total row = 100)"
      using absent_progress_step[OF ok, of ln qe] by (elim conjE)
  qed
qed

theorem malformed_events_tolerated_witness:
  "\<exists>s rest. downloadDockerLayer [\<lparr>line_stream = None, line_status = None, line_id = None,
                line_progressDetail = None\<rparr>] False = Inr (s, rest) \<and>
     detail_absent \<lparr>line_stream = None, line_status = Some ''Downloading'', line_id = None,
                line_progressDetail = None\<rparr> \<and>
     (\<exists>s' row. downloadDockerLayer_step False
           \<lparr>line_stream = None, line_status = Some ''Downloading'', line_id = None,
             line_progressDetail = None\<rparr> s = Inr (s', False)
          \<and> layer_row False None s' = Some row \<and> task_completed row = 100)"
proof -
  let ?ln = "\<lparr>line_stream = None, line_status = Some ''Downloading'', line_id = None,
                line_progressDetail = None\<rparr>"
  let ?l0 = "\<lparr>line_stream = None, line_status = None, line_id = None,
                line_progressDetail = None\<rparr>"
  have ab: "detail_absent ?ln" by (simp add: detail_absent_def)
  have st: "dict_get (line_status ?ln) [] = ''Downloading'' \<or> dict_get (line_status ?ln) [] = ''Extracting''"
    by (simp add: dict_get_def)
  from malformed_events_tolerated[of "[?l0]" False]
  obtain s rest where run: "downloadDockerLayer [?l0] False = Inr (s, rest)"
    and all: "\<forall>ln qe. (dict_get (line_status ln) [] = ''Downloading'' \<or> dict_get (line_status ln) [] = ''Extracting'')
         \<and> detail_absent ln \<longrightarrow>
       (\<exists>s' row. downloadDockerLayer_step qe ln s = Inr (s', False)
          \<and> layer_row (dict_get (line_status ln) [] = ''Extracting'') (line_id ln) s' = Some row
          \<and> task_completed row = 100
          \<and> (task_pool_of (dict_get (line_status ln) [] = ''Extracting'') s (line_id ln) = None
                \<longrightarrow> task_total row = 100))" by (elim exE conjE)
  from all[rule_format, of ?ln False, OF conjI[OF st ab]]
  obtain s' row where "downloadDockerLayer_step False ?ln s = Inr (s', False)"
     "layer_row (dict_get (line_status ?ln) [] = ''Extracting'') (line_id ?ln) s' = Some row"
     "task_completed row = 100" by (elim exE conjE)
  then have "\<exists>s' row. downloadDockerLayer_step False ?ln s = Inr (s', False)
          \<and> layer_row False None s' = Some row \<and> task_completed row = 100"
    by (intro exI[of _ s'] exI[of _ row]) (simp add: dict_get_def)
  with run ab show ?thesis
    by - (rule exI[of _ s], rule exI[of _ rest], (rule conjI, assumption)+)
qed

lemmas results = step_result_def Let_def discover_result_def named_result_def finish_result_def
  progress_result_def set_task_pool_def layer_pool_add_def

lemma layers_step:
  "layers (fst (step_result qe ln s)) =
     (if dict_get (line_status ln) [] = ''Pulling fs layer'' then insert (line_id ln) (layers s)
      else layers s)"
  by (simp add: results split: option.splits)

lemma layers_downloaded_step:
  "layers_downloaded (fst (step_result qe ln s)) =
     (if dict_get (line_status ln) [] = ''Download complete''
      then insert (line_id ln) (layers_downloaded s) else layers_downloaded s)"
  by (simp add: results split: option.splits)

lemma layers_extracted_step:
  "layers_extracted (fst (step_result qe ln s)) =
     (if dict_get (line_status ln) [] = ''Pull complete''
      then insert (line_id ln) (layers_extracted s) else layers_extracted s)"
  by (simp add: results split: option.splits)

lemma aggregate_ok_step:
  assumes ok: "tracker_ok s" and agg: "aggregate_ok s"
  shows "aggregate_ok (fst (step_result qe ln s))"
proof -
  from ok obtain a b where f: "task_layers_download s = 0" "task_layers_extract s = 1"
    "tasks (progress s) 0 = Some a" "tasks (progress s) (Suc 0) = Some b" by (rule ok_agg)
  have idx: "task_index (progress s) \<noteq> 0" "task_index (progress s) \<noteq> Suc 0"
    using ok by (auto simp: tracker_ok_def)
  have pool: "t \<noteq> 0 \<and> t \<noteq> Suc 0" if "task_pool_of ex s l = Some t" for ex l t
    using ok_pool[OF ok that] by blast
  show ?thesis
    using agg f idx pool[of False "line_id ln"] pool[of True "line_id ln"]
    by (auto simp: aggregate_ok_def aggregate_total_def aggregate_completed_def results
          task_pool_of_def split: option.splits)
qed


lemma valid_from_take: "valid_from seen stream \<Longrightarrow> valid_from seen (take n stream)"
proof (induction "stream" arbitrary: seen n)
  case Nil
  then show ?case by simp
next
  case (Cons ln "stream")
  then show ?case by (cases n) (auto simp: Let_def split: if_splits)
qed

lemma loop_step:
  assumes "tracker_ok s"
  shows "downloadDockerLayer_loop qe (ln # stream) s =
     (if snd (step_result qe ln s) then Inr (fst (step_result qe ln s), stream)
      else downloadDockerLayer_loop qe stream (fst (step_result qe ln s)))"
  using step_eq[OF assms, of qe ln] by (cases "step_result qe ln s") simp

lemma loop_invariants:
  assumes "tracker_ok s" "aggregate_ok s"
    "layers_downloaded s \<subseteq> layers s" "layers_extracted s \<subseteq> layers s"
    "valid_from (layers s) stream"
  shows "\<exists>s' rest. downloadDockerLayer_loop qe stream s = Inr (s', rest)
     \<and> layers_downloaded s' \<subseteq> layers s' \<and> layers_extracted s' \<subseteq> layers s' \<and> aggregate_ok s'"
  using assms
proof (induction "stream" arbitrary: s)
  case Nil
  then show ?case by simp
next
  case (Cons ln "stream")
  let ?s = "fst (step_result qe ln s)"
  have ok: "tracker_ok ?s" using Cons.prems(1) by (rule step_result_ok)
  have agg: "aggregate_ok ?s" using Cons.prems(1,2) by (rule aggregate_ok_step)
  have sub: "layers_downloaded ?s \<subseteq> layers ?s" "layers_extracted ?s \<subseteq> layers ?s"
    using Cons.prems(3,4,5)
    by (auto simp: layers_step layers_downloaded_step layers_extracted_step Let_def split: if_splits)
  have val: "valid_from (layers ?s) stream"
    using Cons.prems(5) by (auto simp: layers_step Let_def split: if_splits)
  show ?case
  proof (cases "snd (step_result qe ln s)")
    case True
    then show ?thesis using agg sub by (simp add: loop_step[OF Cons.prems(1)] del: downloadDockerLayer_loop.simps)
  next
    case False
    then show ?thesis using Cons.IH[OF ok agg sub val] by (simp add: loop_step[OF Cons.prems(1)] del: downloadDockerLayer_loop.simps)
  qed
qed

lemma initial_aggregate_ok: "aggregate_ok initial_tracker"
  by (simp add: aggregate_ok_def aggregate_total_def aggregate_completed_def initial_tracker_def add_task_def)

text \<open>
  C1. After any prefix of a valid event sequence, the finished layers of each phase are
  among the layers seen, and each aggregate row shows the number of layers seen as its
  total and the number of finished layers of its phase as its completed count.
\<close>

theorem completed_subset_seen:
  assumes "valid_events stream"
  shows "\<exists>s rest. downloadDockerLayer (take n stream) quick_exit = Inr (s, rest)
     \<and> layers_downloaded s \<subseteq> layers s \<and> layers_extracted s \<subseteq> layers s
     \<and> aggregate_total (task_layers_download s) s = Some (int (card (layers s)))
     \<and> aggregate_total (task_layers_extract s) s = Some (int (card (layers s)))
     \<and> aggregate_completed (task_layers_download s) s = Some (int (card (layers_downloaded s)))
     \<and> aggregate_completed (task_layers_extract s) s = Some (int (card (layers_extracted s)))"
proof -
  have "valid_from (layers initial_tracker) (take n stream)"
    using assms by (simp add: valid_events_def valid_from_take initial_tracker_def add_task_def)
  moreover have "layers_downloaded initial_tracker \<subseteq> layers initial_tracker"
    "layers_extracted initial_tracker \<subseteq> layers initial_tracker"
    by (simp_all add: initial_tracker_def add_task_def)
  ultimately show ?thesis
    using loop_invariants[OF initial_ok initial_aggregate_ok, of "take n stream" quick_exit]
    unfolding downloadDockerLayer_def aggregate_ok_def by simp
qed

lemma fresh_ok_step:
  assumes ok: "tracker_ok s" and fr: "fresh_ok s"
  shows "fresh_ok (fst (step_result qe ln s))"
proof -
  from ok have f: "task_layers_download s = 0" "task_layers_extract s = 1" "2 \<le> task_index (progress s)"
    by (simp_all add: tracker_ok_def)
  have pool: "t < task_index (progress s)" if "task_pool_of ex s l = Some t" for ex l t
    using ok that by (cases ex) (auto simp: tracker_ok_def task_pool_of_def)
  show ?thesis
    using fr f pool[of False "line_id ln"] pool[of True "line_id ln"]
    by (auto simp: fresh_ok_def results task_pool_of_def split: option.splits)
qed

lemma started_step:
  assumes ok: "tracker_ok s" and st: "extract_started s = Some b"
  shows "extract_started (fst (step_result qe ln s)) =
     Some (b \<or> dict_get (line_status ln) [] = ''Extracting'')"
proof -
  from ok obtain a e where f: "task_layers_download s = 0" "task_layers_extract s = 1"
    "tasks (progress s) 0 = Some a" "tasks (progress s) (Suc 0) = Some e" by (rule ok_agg)
  have idx: "task_index (progress s) \<noteq> 0" "task_index (progress s) \<noteq> Suc 0"
    using ok by (auto simp: tracker_ok_def)
  have pool: "t \<noteq> 0 \<and> t \<noteq> Suc 0" if "task_pool_of ex s l = Some t" for ex l t
    using ok_pool[OF ok that] by blast
  show ?thesis
    using st f idx pool[of False "line_id ln"] pool[of True "line_id ln"]
    by (auto simp: extract_started_def getTask_def results task_pool_of_def split: option.splits)
qed

lemma reach_ok_step: "reach_ok s \<Longrightarrow> reach_ok (fst (step_result qe ln s))"
  by (simp add: reach_ok_def step_result_ok aggregate_ok_step fresh_ok_step)

lemma reach_ok_initial: "reach_ok initial_tracker"
  by (simp add: reach_ok_def initial_ok initial_aggregate_ok)
     (simp add: fresh_ok_def initial_tracker_def add_task_def)

lemma snd_step_result: "snd (step_result qe ln s) \<Longrightarrow> qe"
  by (simp add: step_result_def Let_def split: if_splits)

lemma loop_reach:
  assumes "reach_ok s" "extract_started s = Some b"
  shows "\<exists>s' rest. downloadDockerLayer_loop qe stream s = Inr (s', rest) \<and> reach_ok s'
     \<and> length rest \<le> length stream \<and> (\<not> qe \<longrightarrow> rest = [])
     \<and> extract_started s' = Some (b \<or> (\<exists>ln \<in> set (take (length stream - length rest) stream).
            line_status ln = Some ''Extracting''))"
  using assms
proof (induction "stream" arbitrary: s b)
  case Nil
  then show ?case by simp
next
  case (Cons ln "stream")
  let ?s = "fst (step_result qe ln s)"
  let ?b = "b \<or> dict_get (line_status ln) [] = ''Extracting''"
  have tok: "tracker_ok s" using Cons.prems(1) by (simp add: reach_ok_def)
  have ok: "reach_ok ?s" using Cons.prems(1) by (rule reach_ok_step)
  have st: "extract_started ?s = Some ?b" using tok Cons.prems(2) by (rule started_step)
  have ex: "(dict_get (line_status ln) [] = ''Extracting'') = (line_status ln = Some ''Extracting'')"
    by (cases "line_status ln") (simp_all add: dict_get_def)
  show ?case
  proof (cases "snd (step_result qe ln s)")
    case True
    then have qe by (rule snd_step_result)
    then show ?thesis using True ok st ex
      by (simp add: loop_step[OF tok] del: downloadDockerLayer_loop.simps)
  next
    case False
    from Cons.IH[OF ok st] obtain s' rest where
      r: "downloadDockerLayer_loop qe stream ?s = Inr (s', rest)" "reach_ok s'"
        "length rest \<le> length stream" "\<not> qe \<longrightarrow> rest = []"
        "extract_started s' = Some (?b \<or> (\<exists>ln \<in> set (take (length stream - length rest) stream).
            line_status ln = Some ''Extracting''))"
      by (elim exE conjE)
    have "take (length (ln # stream) - length rest) (ln # stream)
        = ln # take (length stream - length rest) stream"
      using r(3) by (simp add: Suc_diff_le)
    then show ?thesis using False r ex
      by (simp add: loop_step[OF tok] del: downloadDockerLayer_loop.simps)
  qed
qed

lemma initial_started: "extract_started initial_tracker = Some False"
  by (simp add: extract_started_def getTask_def initial_tracker_def add_task_def)

lemma download_reach:
  "\<exists>s rest. downloadDockerLayer stream qe = Inr (s, rest) \<and> reach_ok s
     \<and> length rest \<le> length stream \<and> (\<not> qe \<longrightarrow> rest = [])
     \<and> extract_started s = Some (\<exists>ln \<in> set (take (length stream - length rest) stream).
            line_status ln = Some ''Extracting'')"
  using loop_reach[OF reach_ok_initial initial_started, of qe "stream"]
  by (simp add: downloadDockerLayer_def)

lemma consumed_all: "consumed stream False = stream"
  using download_reach[of "stream" False] by (auto simp: consumed_def)

text \<open>
  C2. The extract row is not started when the loop begins, and at the end of a call it is
  started exactly when an Extracting event was among the elements consumed: an Extracting
  event starts it, a Pull complete event does not.
\<close>

theorem extract_row_started_by_extracting:
  "extract_started_after stream quick_exit =
     Some (\<exists>ln \<in> set (consumed stream quick_exit). line_status ln = Some ''Extracting'')"
  using download_reach[of "stream" quick_exit]
  by (auto simp: extract_started_after_def consumed_def)

theorem extract_row_started_by_extracting_witness:
  "extract_started_after [status_event ''Pull complete'' ''a'', status_event ''Extracting'' ''b''] False
     = Some True"
  using extract_row_started_by_extracting
    [of "[status_event ''Pull complete'' ''a'', status_event ''Extracting'' ''b'']" False]
  by (simp add: consumed_all status_event_def)

theorem pull_complete_does_not_start_extract_row:
  "consumed [status_event ''Pull complete'' ''a''] False = [status_event ''Pull complete'' ''a'']
   \<and> extract_started_after [status_event ''Pull complete'' ''a''] False = Some False"
  using download_reach[of "[status_event ''Pull complete'' ''a'']" False]
  by (auto simp: consumed_all extract_started_after_def status_event_def)

theorem completed_subset_seen_witness:
  "valid_events [status_event ''Pulling fs layer'' ''a'', status_event ''Download complete'' ''a'']
   \<and> (\<exists>s rest. downloadDockerLayer
         (take 2 [status_event ''Pulling fs layer'' ''a'', status_event ''Download complete'' ''a'']) False
           = Inr (s, rest)
     \<and> layers_downloaded s \<subseteq> layers s \<and> layers_extracted s \<subseteq> layers s
     \<and> aggregate_total (task_layers_download s) s = Some (int (card (layers s)))
     \<and> aggregate_total (task_layers_extract s) s = Some (int (card (layers s)))
     \<and> aggregate_completed (task_layers_download s) s = Some (int (card (layers_downloaded s)))
     \<and> aggregate_completed (task_layers_extract s) s = Some (int (card (layers_extracted s))))"
proof -
  have v: "valid_events [status_event ''Pulling fs layer'' ''a'', status_event ''Download complete'' ''a'']"
    by (simp add: valid_events_def status_event_def dict_get_def)
  show ?thesis by (rule conjI[OF v completed_subset_seen[OF v]])
qed

lemma finish_result_pool: "task_pool_of ex (finish_result ex l s) l = None"
  by (cases ex) (simp_all add: results task_pool_of_def)

lemma finish_result_row: "layer_row ex l (finish_result ex l s) = None"
  by (simp add: layer_row_def finish_result_pool)

lemma finish_result_removed:
  assumes ok: "tracker_ok s" and p: "task_pool_of ex s l = Some t"
  shows "tasks (progress (finish_result ex l s)) t = None"
proof -
  from ok have f: "task_layers_download s = 0" "task_layers_extract s = 1"
    by (simp_all add: tracker_ok_def)
  from ok_pool[OF ok p] obtain x where "t \<noteq> 0" "t \<noteq> Suc 0" "tasks (progress s) t = Some x" .
  then show ?thesis using p f by (cases ex) (simp_all add: results)
qed

lemma finish_idem:
  assumes ok: "tracker_ok s"
  shows "finish_result ex l (finish_result ex l s) = finish_result ex l s"
proof -
  from ok obtain a b where f: "task_layers_download s = 0" "task_layers_extract s = 1"
    "tasks (progress s) 0 = Some a" "tasks (progress s) (Suc 0) = Some b" by (rule ok_agg)
  show ?thesis
  proof (cases "task_pool_of ex s l")
    case None
    then show ?thesis using f
      by (cases ex) (simp_all add: results task_pool_of_def fun_upd_twist)
  next
    case (Some t)
    from ok_pool[OF ok Some] obtain x where "t \<noteq> 0" "t \<noteq> Suc 0" "tasks (progress s) t = Some x" .
    then show ?thesis using f Some
      by (cases ex) (simp_all add: results task_pool_of_def fun_upd_twist)
  qed
qed

lemma reached_ok:
  assumes "downloadDockerLayer stream qe = Inr (s, rest)"
  shows "reach_ok s"
  using download_reach[of "stream" qe] assms by auto

lemma status_finish:
  assumes "line_status ln = Some ''Download complete'' \<or> line_status ln = Some ''Pull complete''"
  shows "dict_get (line_status ln) [] = ''Download complete'' \<or> dict_get (line_status ln) [] = ''Pull complete''"
    "(dict_get (line_status ln) [] = ''Pull complete'') = (line_status ln = Some ''Pull complete'')"
  using assms by (auto simp: dict_get_def)

lemma status_progress:
  assumes "line_status ln = Some ''Downloading'' \<or> line_status ln = Some ''Extracting''"
  shows "dict_get (line_status ln) [] = ''Downloading'' \<or> dict_get (line_status ln) [] = ''Extracting''"
    "(dict_get (line_status ln) [] = ''Extracting'') = (line_status ln = Some ''Extracting'')"
  using assms by (auto simp: dict_get_def)

text \<open>
  C3. A Download complete or Pull complete event leaves no per-layer task of its layer in
  the pool of its phase and removes the row from the display; processing the same event
  again succeeds and leaves the whole state as it was after the first time.
\<close>

theorem finish_event_idempotent:
  assumes reach: "downloadDockerLayer stream quick_exit = Inr (s, rest)"
    and st: "line_status ln = Some ''Download complete'' \<or> line_status ln = Some ''Pull complete''"
  shows "\<exists>s1. downloadDockerLayer_step qe ln s = Inr (s1, False)
      \<and> task_pool_of (line_status ln = Some ''Pull complete'') s1 (line_id ln) = None
      \<and> layer_row (line_status ln = Some ''Pull complete'') (line_id ln) s1 = None
      \<and> (\<forall>t. task_pool_of (line_status ln = Some ''Pull complete'') s (line_id ln) = Some t
            \<longrightarrow> tasks (progress s1) t = None)
      \<and> downloadDockerLayer_step qe ln s1 = Inr (s1, False)"
proof -
  define ex where "ex = (line_status ln = Some ''Pull complete'')"
  define s1 where "s1 = finish_result ex (line_id ln) s"
  have ok: "tracker_ok s" using reached_ok[OF reach] by (simp add: reach_ok_def)
  have ok1: "tracker_ok s1" unfolding s1_def using ok by (rule finish_ok)
  have e1: "downloadDockerLayer_step qe ln s = Inr (s1, False)"
    unfolding s1_def ex_def using step_finish_eq[OF ok status_finish(1)[OF st], of qe]
    by (simp add: status_finish(2)[OF st])
  have e2: "downloadDockerLayer_step qe ln s1 = Inr (s1, False)"
    using step_finish_eq[OF ok1 status_finish(1)[OF st], of qe] finish_idem[OF ok, of ex "line_id ln"]
    by (simp add: status_finish(2)[OF st] s1_def ex_def)
  have "task_pool_of ex s1 (line_id ln) = None" "layer_row ex (line_id ln) s1 = None"
    "\<forall>t. task_pool_of ex s (line_id ln) = Some t \<longrightarrow> tasks (progress s1) t = None"
    unfolding s1_def by (simp_all add: finish_result_pool finish_result_row finish_result_removed[OF ok])
  with e1 e2 show ?thesis unfolding ex_def by (intro exI[of _ s1] conjI)
qed

theorem finish_event_idempotent_witness:
  "\<exists>s rest. downloadDockerLayer [status_event ''Downloading'' ''a''] False = Inr (s, rest)
   \<and> (\<exists>s1. downloadDockerLayer_step False (status_event ''Download complete'' ''a'') s = Inr (s1, False)
      \<and> task_pool_of False s1 (Some ''a'') = None
      \<and> layer_row False (Some ''a'') s1 = None
      \<and> downloadDockerLayer_step False (status_event ''Download complete'' ''a'') s1 = Inr (s1, False))"
proof -
  obtain s rest where r: "downloadDockerLayer [status_event ''Downloading'' ''a''] False = Inr (s, rest)"
    using download_ok[of "[status_event ''Downloading'' ''a'']" False] by (elim exE conjE)
  have st: "line_status (status_event ''Download complete'' ''a'') = Some ''Download complete''
      \<or> line_status (status_event ''Download complete'' ''a'') = Some ''Pull complete''"
    by (simp add: status_event_def)
  from finish_event_idempotent[OF r st, of False]
  obtain s1 where "downloadDockerLayer_step False (status_event ''Download complete'' ''a'') s = Inr (s1, False)"
      "task_pool_of (line_status (status_event ''Download complete'' ''a'') = Some ''Pull complete'') s1
         (line_id (status_event ''Download complete'' ''a'')) = None"
      "layer_row (line_status (status_event ''Download complete'' ''a'') = Some ''Pull complete'')
         (line_id (status_event ''Download complete'' ''a'')) s1 = None"
      "downloadDockerLayer_step False (status_event ''Download complete'' ''a'') s1 = Inr (s1, False)"
    by (elim exE conjE)
  then have "\<exists>s1. downloadDockerLayer_step False (status_event ''Download complete'' ''a'') s = Inr (s1, False)
      \<and> task_pool_of False s1 (Some ''a'') = None
      \<and> layer_row False (Some ''a'') s1 = None
      \<and> downloadDockerLayer_step False (status_event ''Download complete'' ''a'') s1 = Inr (s1, False)"
    by (intro exI[of _ s1]) (simp add: status_event_def)
  with r show ?thesis by - (rule exI[of _ s], rule exI[of _ rest], rule conjI)
qed

lemma finish_result_layers: "layers (finish_result ex l s) = layers s"
  by (simp add: results)

lemma finish_result_layer_pool:
  "layer_pool_of ex (finish_result ex l s) = insert l (layer_pool_of ex s)"
  by (cases ex) (simp_all add: results layer_pool_of_def)

lemma finish_result_aggregate:
  assumes ok: "tracker_ok s"
  shows "aggregate_completed (aggregate_row_of ex s) (finish_result ex l s)
           = Some (int (card (insert l (layer_pool_of ex s))))"
    "aggregate_total 0 (finish_result ex l s) = aggregate_total 0 s"
    "aggregate_total (Suc 0) (finish_result ex l s) = aggregate_total (Suc 0) s"
    "task_layers_download (finish_result ex l s) = task_layers_download s"
    "task_layers_extract (finish_result ex l s) = task_layers_extract s"
proof -
  from ok obtain a b where f: "task_layers_download s = 0" "task_layers_extract s = 1"
    "tasks (progress s) 0 = Some a" "tasks (progress s) (Suc 0) = Some b" by (rule ok_agg)
  have pool: "t \<noteq> 0 \<and> t \<noteq> Suc 0" if "task_pool_of ex s l = Some t" for t
    using ok_pool[OF ok that] by blast
  show "aggregate_completed (aggregate_row_of ex s) (finish_result ex l s)
           = Some (int (card (insert l (layer_pool_of ex s))))"
    "aggregate_total 0 (finish_result ex l s) = aggregate_total 0 s"
    "aggregate_total (Suc 0) (finish_result ex l s) = aggregate_total (Suc 0) s"
    "task_layers_download (finish_result ex l s) = task_layers_download s"
    "task_layers_extract (finish_result ex l s) = task_layers_extract s"
    using f pool
    by (cases ex; cases "task_pool_of ex s l";
        simp add: results aggregate_completed_def aggregate_total_def aggregate_row_of_def
          layer_pool_of_def task_pool_of_def)+
qed

lemma progress_result_new:
  assumes ok: "tracker_ok s" and fr: "fresh_ok s" and p: "task_pool_of ex s (line_id ln) = None"
  shows "task_pool_of ex (progress_result ex ln s) (line_id ln) = Some (task_index (progress s))"
    "tasks (progress s) (task_index (progress s)) = None"
    "\<exists>row. tasks (progress (progress_result ex ln s)) (task_index (progress s)) = Some row
        \<and> task_layer row = Some (line_id ln)"
    "layers (progress_result ex ln s) = layers s"
    "aggregate_total 0 (progress_result ex ln s) = aggregate_total 0 s"
    "aggregate_total (Suc 0) (progress_result ex ln s) = aggregate_total (Suc 0) s"
proof -
  from ok obtain a b where f: "task_layers_download s = 0" "task_layers_extract s = 1"
    "tasks (progress s) 0 = Some a" "tasks (progress s) (Suc 0) = Some b" by (rule ok_agg)
  have idx: "task_index (progress s) \<noteq> 0" "task_index (progress s) \<noteq> Suc 0"
    using ok by (auto simp: tracker_ok_def)
  show "tasks (progress s) (task_index (progress s)) = None"
    using fr by (simp add: fresh_ok_def)
  show "task_pool_of ex (progress_result ex ln s) (line_id ln) = Some (task_index (progress s))"
    "\<exists>row. tasks (progress (progress_result ex ln s)) (task_index (progress s)) = Some row
        \<and> task_layer row = Some (line_id ln)"
    "layers (progress_result ex ln s) = layers s"
    "aggregate_total 0 (progress_result ex ln s) = aggregate_total 0 s"
    "aggregate_total (Suc 0) (progress_result ex ln s) = aggregate_total (Suc 0) s"
    using f idx p
    by (cases ex; simp add: results aggregate_total_def task_pool_of_def)+
qed

lemma aggregate_ok_phase:
  assumes "aggregate_ok s"
  shows "aggregate_completed (aggregate_row_of ex s) s = Some (int (card (layer_pool_of ex s)))"
  using assms by (cases ex) (simp_all add: aggregate_ok_def aggregate_row_of_def layer_pool_of_def)

lemma finite_layer_pool: "tracker_ok s \<Longrightarrow> finite (layer_pool_of ex s)"
  by (cases ex) (simp_all add: tracker_ok_def layer_pool_of_def)

lemma undiscovered_progress:
  assumes rk: "reach_ok s"
    and st: "line_status ln = Some ''Downloading'' \<or> line_status ln = Some ''Extracting''"
    and p: "task_pool_of (line_status ln = Some ''Extracting'') s (line_id ln) = None"
  shows "\<exists>s' t row. downloadDockerLayer_step qe ln s = Inr (s', False)
     \<and> task_pool_of (line_status ln = Some ''Extracting'') s' (line_id ln) = Some t
     \<and> tasks (progress s) t = None
     \<and> tasks (progress s') t = Some row \<and> task_layer row = Some (line_id ln)
     \<and> layers s' = layers s
     \<and> aggregate_total (task_layers_download s') s' = aggregate_total (task_layers_download s) s
     \<and> aggregate_total (task_layers_extract s') s' = aggregate_total (task_layers_extract s) s"
proof -
  define ex where "ex = (line_status ln = Some ''Extracting'')"
  define s' where "s' = progress_result ex ln s"
  have ok: "tracker_ok s" and fr: "fresh_ok s" using rk by (simp_all add: reach_ok_def)
  have ids: "task_layers_download s = 0" "task_layers_extract s = Suc 0"
    using ok by (simp_all add: tracker_ok_def)
  have ok': "tracker_ok s'" unfolding s'_def using ok by (rule progress_ok)
  have ids': "task_layers_download s' = 0" "task_layers_extract s' = Suc 0"
    using ok' by (simp_all add: tracker_ok_def)
  have e: "downloadDockerLayer_step qe ln s = Inr (s', False)"
    unfolding s'_def ex_def using step_progress_eq[OF ok status_progress(1)[OF st], of qe]
    by (simp add: status_progress(2)[OF st])
  note n = progress_result_new[OF ok fr p[folded ex_def], folded s'_def]
  from n(3) obtain row where row: "tasks (progress s') (task_index (progress s)) = Some row"
    "task_layer row = Some (line_id ln)" by (elim exE conjE)
  have "downloadDockerLayer_step qe ln s = Inr (s', False)
     \<and> task_pool_of ex s' (line_id ln) = Some (task_index (progress s))
     \<and> tasks (progress s) (task_index (progress s)) = None
     \<and> tasks (progress s') (task_index (progress s)) = Some row \<and> task_layer row = Some (line_id ln)
     \<and> layers s' = layers s
     \<and> aggregate_total (task_layers_download s') s' = aggregate_total (task_layers_download s) s
     \<and> aggregate_total (task_layers_extract s') s' = aggregate_total (task_layers_extract s) s"
    using e n(1,2,4,5,6) row by (simp add: ids ids')
  then show ?thesis unfolding ex_def by (intro exI)
qed

lemma undiscovered_finish:
  assumes rk: "reach_ok s"
    and st: "line_status ln = Some ''Download complete'' \<or> line_status ln = Some ''Pull complete''"
  shows "\<exists>s'. downloadDockerLayer_step qe ln s = Inr (s', False)
     \<and> line_id ln \<in> layer_pool_of (line_status ln = Some ''Pull complete'') s'
     \<and> aggregate_completed (aggregate_row_of (line_status ln = Some ''Pull complete'') s') s'
          = Some (int (card (layer_pool_of (line_status ln = Some ''Pull complete'') s')))
     \<and> (line_id ln \<notin> layer_pool_of (line_status ln = Some ''Pull complete'') s \<longrightarrow>
          aggregate_completed (aggregate_row_of (line_status ln = Some ''Pull complete'') s') s'
          = map_option (\<lambda>c. c + 1)
              (aggregate_completed (aggregate_row_of (line_status ln = Some ''Pull complete'') s) s))
     \<and> layers s' = layers s
     \<and> aggregate_total (task_layers_download s') s' = aggregate_total (task_layers_download s) s
     \<and> aggregate_total (task_layers_extract s') s' = aggregate_total (task_layers_extract s) s"
proof -
  define ex where "ex = (line_status ln = Some ''Pull complete'')"
  define s' where "s' = finish_result ex (line_id ln) s"
  have ok: "tracker_ok s" and ag: "aggregate_ok s" using rk by (simp_all add: reach_ok_def)
  have ids: "task_layers_download s = 0" "task_layers_extract s = Suc 0"
    using ok by (simp_all add: tracker_ok_def)
  have e: "downloadDockerLayer_step qe ln s = Inr (s', False)"
    unfolding s'_def ex_def using step_finish_eq[OF ok status_finish(1)[OF st], of qe]
    by (simp add: status_finish(2)[OF st])
  note a = finish_result_aggregate[OF ok, of ex "line_id ln", folded s'_def]
  have row: "aggregate_row_of ex s' = aggregate_row_of ex s"
    using a(4,5) by (simp add: aggregate_row_of_def)
  have pool: "layer_pool_of ex s' = insert (line_id ln) (layer_pool_of ex s)"
    unfolding s'_def by (rule finish_result_layer_pool)
  have "downloadDockerLayer_step qe ln s = Inr (s', False)
     \<and> line_id ln \<in> layer_pool_of ex s'
     \<and> aggregate_completed (aggregate_row_of ex s') s' = Some (int (card (layer_pool_of ex s')))
     \<and> (line_id ln \<notin> layer_pool_of ex s \<longrightarrow>
          aggregate_completed (aggregate_row_of ex s') s'
          = map_option (\<lambda>c. c + 1) (aggregate_completed (aggregate_row_of ex s) s))
     \<and> layers s' = layers s
     \<and> aggregate_total (task_layers_download s') s' = aggregate_total (task_layers_download s) s
     \<and> aggregate_total (task_layers_extract s') s' = aggregate_total (task_layers_extract s) s"
    using e a row pool aggregate_ok_phase[OF ag, of ex] finite_layer_pool[OF ok, of ex]
      finish_result_layers[of ex "line_id ln" s, folded s'_def]
    by (simp add: ids)
  then show ?thesis unfolding ex_def by (intro exI)
qed

text \<open>
  C9. Layer ids need not be announced. In a state the loop reaches, for a layer that is
  not in the seen-set: a Downloading or Extracting event creates a per-layer task when the
  pool of its phase has none for the layer; a Download complete or Pull complete event
  adds the layer to the completed-set of its phase and sets the aggregate completed count
  to the size of that set, one more than before when the layer was not in it. Neither
  changes the seen-set or an aggregate total.
\<close>

theorem no_discovery_precondition:
  assumes reach: "downloadDockerLayer stream quick_exit = Inr (s, rest)"
    and undiscovered: "line_id ln \<notin> layers s"
  shows "((line_status ln = Some ''Downloading'' \<or> line_status ln = Some ''Extracting'')
          \<and> task_pool_of (line_status ln = Some ''Extracting'') s (line_id ln) = None \<longrightarrow>
          (\<exists>s' t row. downloadDockerLayer_step qe ln s = Inr (s', False)
             \<and> task_pool_of (line_status ln = Some ''Extracting'') s' (line_id ln) = Some t
             \<and> tasks (progress s) t = None
             \<and> tasks (progress s') t = Some row \<and> task_layer row = Some (line_id ln)
             \<and> layers s' = layers s \<and> line_id ln \<notin> layers s'
             \<and> aggregate_total (task_layers_download s') s' = aggregate_total (task_layers_download s) s
             \<and> aggregate_total (task_layers_extract s') s' = aggregate_total (task_layers_extract s) s))
     \<and> (line_status ln = Some ''Download complete'' \<or> line_status ln = Some ''Pull complete'' \<longrightarrow>
          (\<exists>s'. downloadDockerLayer_step qe ln s = Inr (s', False)
             \<and> line_id ln \<in> layer_pool_of (line_status ln = Some ''Pull complete'') s'
             \<and> aggregate_completed (aggregate_row_of (line_status ln = Some ''Pull complete'') s') s'
                  = Some (int (card (layer_pool_of (line_status ln = Some ''Pull complete'') s')))
             \<and> (line_id ln \<notin> layer_pool_of (line_status ln = Some ''Pull complete'') s \<longrightarrow>
                  aggregate_completed (aggregate_row_of (line_status ln = Some ''Pull complete'') s') s'
                  = map_option (\<lambda>c. c + 1)
                      (aggregate_completed (aggregate_row_of (line_status ln = Some ''Pull complete'') s) s))
             \<and> layers s' = layers s \<and> line_id ln \<notin> layers s'
             \<and> aggregate_total (task_layers_download s') s' = aggregate_total (task_layers_download s) s
             \<and> aggregate_total (task_layers_extract s') s' = aggregate_total (task_layers_extract s) s))"
proof (intro conjI impI)
  have rk: "reach_ok s" using reach by (rule reached_ok)
  {
    assume a: "(line_status ln = Some ''Downloading'' \<or> line_status ln = Some ''Extracting'')
          \<and> task_pool_of (line_status ln = Some ''Extracting'') s (line_id ln) = None"
    from undiscovered_progress[OF rk conjunct1[OF a] conjunct2[OF a], of qe]
    obtain s' t row where r: "downloadDockerLayer_step qe ln s = Inr (s', False)"
        "task_pool_of (line_status ln = Some ''Extracting'') s' (line_id ln) = Some t"
        "tasks (progress s) t = None" "tasks (progress s') t = Some row"
        "task_layer row = Some (line_id ln)" "layers s' = layers s"
        "aggregate_total (task_layers_download s') s' = aggregate_total (task_layers_download s) s"
        "aggregate_total (task_layers_extract s') s' = aggregate_total (task_layers_extract s) s"
      by (elim exE conjE)
    have "line_id ln \<notin> layers s'" using r(6) undiscovered by simp
    with r show "\<exists>s' t row. downloadDockerLayer_step qe ln s = Inr (s', False)
             \<and> task_pool_of (line_status ln = Some ''Extracting'') s' (line_id ln) = Some t
             \<and> tasks (progress s) t = None
             \<and> tasks (progress s') t = Some row \<and> task_layer row = Some (line_id ln)
             \<and> layers s' = layers s \<and> line_id ln \<notin> layers s'
             \<and> aggregate_total (task_layers_download s') s' = aggregate_total (task_layers_download s) s
             \<and> aggregate_total (task_layers_extract s') s' = aggregate_total (task_layers_extract s) s"
      by - (rule exI[of _ s'], rule exI[of _ t], rule exI[of _ row], simp)
  }
  {
    assume a: "line_status ln = Some ''Download complete'' \<or> line_status ln = Some ''Pull complete''"
    from undiscovered_finish[OF rk a, of qe]
    obtain s' where r: "downloadDockerLayer_step qe ln s = Inr (s', False)"
        "line_id ln \<in> layer_pool_of (line_status ln = Some ''Pull complete'') s'"
        "aggregate_completed (aggregate_row_of (line_status ln = Some ''Pull complete'') s') s'
                  = Some (int (card (layer_pool_of (line_status ln = Some ''Pull complete'') s')))"
        "line_id ln \<notin> layer_pool_of (line_status ln = Some ''Pull complete'') s \<longrightarrow>
                  aggregate_completed (aggregate_row_of (line_status ln = Some ''Pull complete'') s') s'
                  = map_option (\<lambda>c. c + 1)
                      (aggregate_completed (aggregate_row_of (line_status ln = Some ''Pull complete'') s) s)"
        "layers s' = layers s"
        "aggregate_total (task_layers_download s') s' = aggregate_total (task_layers_download s) s"
        "aggregate_total (task_layers_extract s') s' = aggregate_total (task_layers_extract s) s"
      by (elim exE conjE)
    have "line_id ln \<notin> layers s'" using r(5) undiscovered by simp
    with r show "\<exists>s'. downloadDockerLayer_step qe ln s = Inr (s', False)
             \<and> line_id ln \<in> layer_pool_of (line_status ln = Some ''Pull complete'') s'
             \<and> aggregate_completed (aggregate_row_of (line_status ln = Some ''Pull complete'') s') s'
                  = Some (int (card (layer_pool_of (line_status ln = Some ''Pull complete'') s')))
             \<and> (line_id ln \<notin> layer_pool_of (line_status ln = Some ''Pull complete'') s \<longrightarrow>
                  aggregate_completed (aggregate_row_of (line_status ln = Some ''Pull complete'') s') s'
                  = map_option (\<lambda>c. c + 1)
                      (aggregate_completed (aggregate_row_of (line_status ln = Some ''Pull complete'') s) s))
             \<and> layers s' = layers s \<and> line_id ln \<notin> layers s'
             \<and> aggregate_total (task_layers_download s') s' = aggregate_total (task_layers_download s) s
             \<and> aggregate_total (task_layers_extract s') s' = aggregate_total (task_layers_extract s) s"
      by - (rule exI[of _ s'], simp)
  }
qed

lemmas initial_simps = initial_tracker_def add_task_def task_pool_of_def layer_pool_of_def
  aggregate_row_of_def aggregate_completed_def aggregate_total_def status_event_def

theorem no_discovery_precondition_witness:
  "downloadDockerLayer [] False = Inr (initial_tracker, [])
   \<and> Some ''a'' \<notin> layers initial_tracker
   \<and> (\<exists>s' t row. downloadDockerLayer_step False (status_event ''Downloading'' ''a'') initial_tracker
           = Inr (s', False)
        \<and> downloading s' (Some ''a'') = Some t \<and> tasks (progress initial_tracker) t = None
        \<and> tasks (progress s') t = Some row \<and> task_layer row = Some (Some ''a'')
        \<and> layers s' = {})
   \<and> (\<exists>s'. downloadDockerLayer_step False (status_event ''Download complete'' ''a'') initial_tracker
           = Inr (s', False)
        \<and> Some ''a'' \<in> layers_downloaded s'
        \<and> aggregate_completed (task_layers_download s') s' = Some 1
        \<and> layers s' = {})"
proof -
  have r: "downloadDockerLayer [] False = Inr (initial_tracker, [])"
    by (simp add: downloadDockerLayer_def)
  have u: "Some ''a'' \<notin> layers initial_tracker" by (simp add: initial_simps)
  have u1: "line_id (status_event ''Downloading'' ''a'') \<notin> layers initial_tracker"
    and u2: "line_id (status_event ''Download complete'' ''a'') \<notin> layers initial_tracker"
    by (simp_all add: initial_simps)
  have h1: "(line_status (status_event ''Downloading'' ''a'') = Some ''Downloading''
        \<or> line_status (status_event ''Downloading'' ''a'') = Some ''Extracting'')
      \<and> task_pool_of (line_status (status_event ''Downloading'' ''a'') = Some ''Extracting'')
          initial_tracker (line_id (status_event ''Downloading'' ''a'')) = None"
    by (simp add: initial_simps)
  have h2: "line_status (status_event ''Download complete'' ''a'') = Some ''Download complete''
        \<or> line_status (status_event ''Download complete'' ''a'') = Some ''Pull complete''"
    by (simp add: initial_simps)
  from no_discovery_precondition[OF r u1, of False, THEN conjunct1, rule_format, OF h1]
  obtain s' t row where
    "downloadDockerLayer_step False (status_event ''Downloading'' ''a'') initial_tracker = Inr (s', False)"
    "task_pool_of (line_status (status_event ''Downloading'' ''a'') = Some ''Extracting'') s'
       (line_id (status_event ''Downloading'' ''a'')) = Some t"
    "tasks (progress initial_tracker) t = None" "tasks (progress s') t = Some row"
    "task_layer row = Some (line_id (status_event ''Downloading'' ''a''))"
    "layers s' = layers initial_tracker"
    by (elim exE conjE)
  then have p1: "\<exists>s' t row. downloadDockerLayer_step False (status_event ''Downloading'' ''a'') initial_tracker
           = Inr (s', False)
        \<and> downloading s' (Some ''a'') = Some t \<and> tasks (progress initial_tracker) t = None
        \<and> tasks (progress s') t = Some row \<and> task_layer row = Some (Some ''a'')
        \<and> layers s' = {}"
    by - (rule exI[of _ s'], rule exI[of _ t], rule exI[of _ row], simp add: initial_simps)
  from no_discovery_precondition[OF r u2, of False, THEN conjunct2, rule_format, OF h2]
  obtain s' where
    "downloadDockerLayer_step False (status_event ''Download complete'' ''a'') initial_tracker = Inr (s', False)"
    "line_id (status_event ''Download complete'' ''a'')
       \<in> layer_pool_of (line_status (status_event ''Download complete'' ''a'') = Some ''Pull complete'') s'"
    "line_id (status_event ''Download complete'' ''a'')
        \<notin> layer_pool_of (line_status (status_event ''Download complete'' ''a'') = Some ''Pull complete'')
            initial_tracker \<longrightarrow>
     aggregate_completed
        (aggregate_row_of (line_status (status_event ''Download complete'' ''a'') = Some ''Pull complete'') s') s'
       = map_option (\<lambda>c. c + 1)
          (aggregate_completed
            (aggregate_row_of (line_status (status_event ''Download complete'' ''a'') = Some ''Pull complete'')
               initial_tracker) initial_tracker)"
    "layers s' = layers initial_tracker"
    by (elim exE conjE)
  then have p2: "\<exists>s'. downloadDockerLayer_step False (status_event ''Download complete'' ''a'') initial_tracker
           = Inr (s', False)
        \<and> Some ''a'' \<in> layers_downloaded s'
        \<and> aggregate_completed (task_layers_download s') s' = Some 1
        \<and> layers s' = {}"
    by - (rule exI[of _ s'], simp add: initial_simps)
  from r u p1 p2 show ?thesis by (intro conjI)
qed

lemma snd_step_result_iff: "snd (step_result qe ln s) = (qe \<and> is_operation_complete ln)"
  by (auto simp: step_result_def is_operation_complete_def Let_def)

lemma loop_quick_exit:
  assumes "tracker_ok s" "\<forall>l \<in> set pre. \<not> is_operation_complete l" "is_operation_complete fin"
  shows "\<exists>s'. downloadDockerLayer_loop True (pre @ fin # post) s = Inr (s', post)
     \<and> downloadDockerLayer_loop True (pre @ [fin]) s = Inr (s', [])"
  using assms
proof (induction pre arbitrary: s)
  case Nil
  then show ?case
    by (simp add: loop_step snd_step_result_iff del: downloadDockerLayer_loop.simps)
next
  case (Cons ln pre)
  have ok: "tracker_ok (fst (step_result True ln s))" using Cons.prems(1) by (rule step_result_ok)
  from Cons.IH[OF ok] Cons.prems(2,3) show ?case
    by (simp add: loop_step[OF Cons.prems(1)] snd_step_result_iff del: downloadDockerLayer_loop.simps)
qed

lemma download_quick_exit:
  assumes "\<forall>l \<in> set pre. \<not> is_operation_complete l" "is_operation_complete fin"
  shows "\<exists>s. downloadDockerLayer (pre @ fin # post) True = Inr (s, post)
     \<and> downloadDockerLayer (pre @ [fin]) True = Inr (s, [])"
  unfolding downloadDockerLayer_def using loop_quick_exit[OF initial_ok assms] .

text \<open>
  C8. A build line containing ": FROM " hands the rest of the same stream to
  downloadDockerLayer in quick-exit mode. There the first OperationComplete event ends the
  consumption: the elements after it stay in the stream and are handled by the build loop.
  Without quick-exit mode the same event does not end the consumption.
\<close>

theorem from_line_enters_quick_exit_pull:
  assumes "str_contains '': FROM '' (dict_get (line_stream ln) '''')"
    and "\<forall>l \<in> set pre. \<not> is_operation_complete l"
    and "is_operation_complete fin"
  shows "\<exists>s. downloadDockerLayer (pre @ fin # post) True = Inr (s, post)
     \<and> downloadDockerLayer (pre @ [fin]) True = Inr (s, [])
     \<and> consumed (pre @ fin # post) True = pre @ [fin]
     \<and> consumed (pre @ fin # post) False = pre @ fin # post
     \<and> buildDockerImage (ln # pre @ fin # post) =
         and_then (buildDockerImage post) (\<lambda>lg.
           Inr (build_log_line (dict_get (line_stream ln) '''')
                @ [Info ''Downloading docker image''] @ logs s @ lg))"
proof -
  from download_quick_exit[OF assms(2,3), of post]
  obtain s where s: "downloadDockerLayer (pre @ fin # post) True = Inr (s, post)"
    "downloadDockerLayer (pre @ [fin]) True = Inr (s, [])" by (elim exE conjE)
  have c: "consumed (pre @ fin # post) True = pre @ [fin]"
    using s(1) by (simp add: consumed_def)
  have b: "buildDockerImage (ln # pre @ fin # post) =
         and_then (buildDockerImage post) (\<lambda>lg.
           Inr (build_log_line (dict_get (line_stream ln) '''')
                @ [Info ''Downloading docker image''] @ logs s @ lg))"
    using assms(1) s(1) by (simp add: Let_def)
  from s c consumed_all[of "pre @ fin # post"] b show ?thesis
    by - (rule exI[of _ s], (rule conjI, assumption)+)
qed

theorem from_line_enters_quick_exit_pull_witness:
  "str_contains '': FROM '' (dict_get (line_stream (build_line ''Step 1/2 : FROM ubuntu'')) '''')
   \<and> \<not> is_operation_complete (status_event ''Pulling fs layer'' ''a'')
   \<and> is_operation_complete (status_event ''Image is up to date for ubuntu'' ''latest'')
   \<and> consumed [status_event ''Pulling fs layer'' ''a'',
                status_event ''Image is up to date for ubuntu'' ''latest'',
                build_line ''Step 2/2 : RUN true''] True
       = [status_event ''Pulling fs layer'' ''a'',
          status_event ''Image is up to date for ubuntu'' ''latest'']
   \<and> consumed [status_event ''Pulling fs layer'' ''a'',
                status_event ''Image is up to date for ubuntu'' ''latest'',
                build_line ''Step 2/2 : RUN true''] False
       = [status_event ''Pulling fs layer'' ''a'',
          status_event ''Image is up to date for ubuntu'' ''latest'',
          build_line ''Step 2/2 : RUN true'']
   \<and> buildDockerImage [build_line ''Step 1/2 : FROM ubuntu'',
          status_event ''Pulling fs layer'' ''a'',
          status_event ''Image is up to date for ubuntu'' ''latest'',
          build_line ''Step 2/2 : RUN true'']
       = Inr [Info ''Step 1/2 : FROM ubuntu'', Info ''Downloading docker image'',
              Success ''Image is up to date for ubuntu'', Info ''Step 2/2 : RUN true'']"
proof -
  let ?ln = "build_line ''Step 1/2 : FROM ubuntu''"
  let ?e = "status_event ''Pulling fs layer'' ''a''"
  let ?fin = "status_event ''Image is up to date for ubuntu'' ''latest''"
  let ?post = "[build_line ''Step 2/2 : RUN true'']"
  have h1: "str_contains '': FROM '' (dict_get (line_stream ?ln) '''')"
    by (simp add: build_line_def dict_get_def)
  have h2: "\<not> is_operation_complete ?e"
    by (simp add: is_operation_complete_def status_event_def dict_get_def)
  have h2': "\<forall>l \<in> set [?e]. \<not> is_operation_complete l" using h2 by simp
  have h3: "is_operation_complete ?fin"
    by (simp add: is_operation_complete_def status_event_def dict_get_def)
  from from_line_enters_quick_exit_pull[OF h1 h2' h3, of ?post]
  obtain s where s: "downloadDockerLayer ([?e] @ [?fin]) True = Inr (s, [])"
    "consumed ([?e] @ ?fin # ?post) True = [?e] @ [?fin]"
    "consumed ([?e] @ ?fin # ?post) False = [?e] @ ?fin # ?post"
    "buildDockerImage (?ln # [?e] @ ?fin # ?post) =
         and_then (buildDockerImage ?post) (\<lambda>lg.
           Inr (build_log_line (dict_get (line_stream ?ln) '''')
                @ [Info ''Downloading docker image''] @ logs s @ lg))"
    by (elim exE conjE)
  have lg: "logs s = [Success ''Image is up to date for ubuntu'']"
    using s(1)
    by (auto simp: downloadDockerLayer_def initial_tracker_def add_task_def downloadDockerLayer_step_def
        and_then_def update_total_def Let_def dict_get_def status_event_def)
  have post: "buildDockerImage ?post = Inr [Info ''Step 2/2 : RUN true'']"
    by (simp add: build_line_def dict_get_def build_log_line_def strip_def rstrip_def is_space_def
          and_then_def Let_def)
  have out: "build_log_line (dict_get (line_stream ?ln) '''') = [Info ''Step 1/2 : FROM ubuntu'']"
    by (simp add: build_line_def dict_get_def build_log_line_def strip_def rstrip_def is_space_def)
  have b: "buildDockerImage [?ln, ?e, ?fin, build_line ''Step 2/2 : RUN true'']
       = Inr [Info ''Step 1/2 : FROM ubuntu'', Info ''Downloading docker image'',
              Success ''Image is up to date for ubuntu'', Info ''Step 2/2 : RUN true'']"
    using s(4) by (simp only: lg post out and_then_def append.simps sum.case)
  from h1 h2 h3 s(2,3) b show ?thesis by simp
qed

section \<open>Properties of the tables and the selection\<close>

text \<open>
  C7. Three image records give, at normal verbosity, a table with the columns Image tag,
  Size, Status, Type and three rows; at verbose level the columns are Id, Image tag,
  Download size, Disk size, Status, Type, without Size.
\<close>

theorem image_table_columns:
  "(\<exists>t. printTable NormalLevel (Images [a, b, c]) title = (Inr (), [Printed t])
      \<and> table_columns t = [Some ''Image tag'', Some ''Size'', Some ''Status'', Some ''Type'']
      \<and> length (table_rows t) = 3)
   \<and> (\<exists>t. printTable VerboseLevel (Images [a, b, c]) title = (Inr (), [Printed t])
      \<and> table_columns t = [Some ''Id'', Some ''Image tag'', Some ''Download size'',
                            Some ''Disk size'', Some ''Status'', Some ''Type'']
      \<and> Some ''Size'' \<notin> set (table_columns t)
      \<and> length (table_rows t) = 3)"
  by (simp add: printTable_def console_print_def buildImageTable_def verbose_enabled_def
        add_column_def add_row_def)

text \<open>
  C5. On an empty list both selection functions log a warning and raise IndexError, the
  EmptyInput condition, as their result; nothing else reaches the terminal: no table is
  printed and the user is not asked.
\<close>

theorem select_empty_fails:
  "selectFromTable getKey eq as_table_data v [] object_type dflt_arg typed =
     (Inl IndexError,
      [Logged (Warning (if object_type = Some ExegolImage_class then ''No images were found''
                        else ''No container were found''))])
   \<and> selectFromList v (OptionList []) subject title dflt_arg typed =
     (Inl IndexError, [Logged (Warning ''No options were found'')])
   \<and> selectFromList v (OptionDict []) subject title dflt_arg typed =
     (Inl IndexError, [Logged (Warning ''No options were found'')])"
  by (simp add: selectFromTable_def selectFromList_def)






lemma foldl_add_row:
  "table_title (foldl (\<lambda>t x. add_row (f x) t) t0 xs) = table_title t0
   \<and> table_columns (foldl (\<lambda>t x. add_row (f x) t) t0 xs) = table_columns t0
   \<and> length (table_rows (foldl (\<lambda>t x. add_row (f x) t) t0 xs)) = length (table_rows t0) + length xs"
  by (induction xs arbitrary: t0) (simp_all add: add_row_def)

lemma foldl_add_row_if:
  "table_title (foldl (\<lambda>t x. if b then add_row (f x) t else add_row (g x) t) t0 xs) = table_title t0
   \<and> table_columns (foldl (\<lambda>t x. if b then add_row (f x) t else add_row (g x) t) t0 xs)
       = table_columns t0"
  using foldl_add_row[of f t0 xs] foldl_add_row[of g t0 xs] by (cases b) simp_all

lemma printTable_titles:
  "xs \<noteq> [] \<Longrightarrow> \<exists>t. printTable v (Images xs) title = (Inr (), [Printed t])
      \<and> table_title t = Some ''Available images''"
  "ys \<noteq> [] \<Longrightarrow> \<exists>t. printTable v (Containers ys) title = (Inr (), [Printed t])
      \<and> table_title t = Some ''[gold3][g]Available containers[/g][/gold3]''"
  "zs \<noteq> [] \<Longrightarrow> \<exists>t. printTable v (Strings zs) (Some header) = (Inr (), [Printed t])
      \<and> table_title t = None \<and> table_columns t = [Some header]"
  by (simp_all add: printTable_def console_print_def buildImageTable_def buildContainerTable_def
        buildStringTable_def Let_def foldl_add_row foldl_add_row_if add_column_def)

text \<open>
  C10. With the title left out, printTable passes its own title, None, to
  __buildStringTable, so the default "Key" of that parameter is never used: the single
  column of the table gets the header None, which console.print cannot render, and the
  call raises NotRenderableError without printing a table.
\<close>

theorem string_table_header_without_title:
  "table_columns (buildStringTable \<lparr>table_title = None, table_columns = [], table_rows = []\<rparr>
                    [''a''] (Some None)) = [None]
   \<and> table_columns (buildStringTable \<lparr>table_title = None, table_columns = [], table_rows = []\<rparr>
                      [''a''] None) = [Some ''Key'']
   \<and> printTable v (Strings [''a'']) None = (Inl NotRenderableError, [])"
  by (simp add: printTable_def console_print_def buildStringTable_def add_column_def add_row_def)

end
